theory Spec2Isabelle
  imports Main
begin

section \<open>Runtime tasks and their results\<close>

text \<open>
  The runtime reports a result state as one of the strings
  \<^verbatim>\<open>pass\<close>, \<^verbatim>\<open>fail\<close>, \<^verbatim>\<open>skip\<close>, \<^verbatim>\<open>todo\<close>, \<^verbatim>\<open>run\<close>, \<^verbatim>\<open>only\<close>.
  \<open>Unexpected\<close> stands for any other string: the \<^verbatim>\<open>default\<close> branch of the
  switch in \<^verbatim>\<open>sync\<close> (src/src/watch.ts) exists for it.
\<close>

datatype task_state = Pass | Fail | Skip | Todo | Run | Only | Unexpected string

record task_error =
  message :: "string option"

record task_result =
  state :: task_state
  duration :: "int option"
  error :: "task_error option"

section \<open>Event ingestion: the state manager (src/unnamed/part_001)\<close>

text \<open>
  Task objects are shared: the same object is reachable from \<^verbatim>\<open>idMap\<close>, from
  \<^verbatim>\<open>filesMap\<close> (a file is a task) and from the \<^verbatim>\<open>tasks\<close> array of its parent.
  The model keeps an explicit store from object references to objects, and the
  two maps hold references. Fields of a task that the state manager never
  touches live in the record's extension.
\<close>

type_synonym ref = nat

datatype task_type = TSuite | TTest

record task_obj =
  task_id :: string
  task_name :: string
  otype :: task_type
  result :: "task_result option"
  tasks :: "ref list"
  tfile :: "ref option"
  logs :: "string list option"

record 'a StateManager =
  heap :: "ref \<Rightarrow> 'a task_obj_scheme"
  filesMap :: "string \<rightharpoonup> ref"
  idMap :: "string \<rightharpoonup> ref"
  errorsSet :: "string list"

type_synonym TaskResultPack = "string \<times> task_result option"

text \<open>
  One iteration of the loop of \<^verbatim>\<open>updateTasks\<close>:
  \<^verbatim>\<open>if (this.idMap.has(id)) this.idMap.get(id)!.result = result\<close>.
\<close>

definition updateTask :: "TaskResultPack \<Rightarrow> 'a StateManager \<Rightarrow> 'a StateManager" where
  "updateTask pack st =
     (case idMap st (fst pack) of
        None \<Rightarrow> st
      | Some r \<Rightarrow> st\<lparr>heap := (heap st)(r := (heap st r)\<lparr>result := snd pack\<rparr>)\<rparr>)"

fun updateTasks :: "TaskResultPack list \<Rightarrow> 'a StateManager \<Rightarrow> 'a StateManager" where
  "updateTasks [] st = st"
| "updateTasks (pack # packs) st = updateTasks packs (updateTask pack st)"

text \<open>
  The last pack of a batch that addresses the object \<open>r\<close> through the id index,
  if any: the packs are applied in order, so this is the one whose result stays.
\<close>

definition lastPackFor :: "'a StateManager \<Rightarrow> TaskResultPack list \<Rightarrow> ref \<Rightarrow> TaskResultPack option" where
  "lastPackFor st packs r = find (\<lambda>pack. idMap st (fst pack) = Some r) (rev packs)"

text \<open>
  A state with one collected test \<^verbatim>\<open>adds\<close> of id \<^verbatim>\<open>t1\<close>, stored at reference 1,
  and a result to report.
\<close>

definition passed_result :: task_result where
  "passed_result = \<lparr>state = Pass, duration = Some 3, error = None\<rparr>"

definition collected_state :: "unit StateManager" where
  "collected_state =
     \<lparr>heap = (\<lambda>_. \<lparr>task_id = ''t1'', task_name = ''adds'', otype = TTest, result = None,
                     tasks = [], tfile = None, logs = None\<rparr>),
      filesMap = Map.empty,
      idMap = [''t1'' \<mapsto> 1],
      errorsSet = []\<rparr>"

section \<open>The test tree read by the synchronizer (src/src/watch.ts)\<close>

text \<open>
  \<^verbatim>\<open>TestDescribe\<close> and \<^verbatim>\<open>TestCase\<close> are the suite and case nodes of the static tree.
  Their class declarations are not among the sources; the model takes from their
  uses what the code reads: the constructor arguments, \<^verbatim>\<open>pattern\<close> (the name the
  matcher compares), \<^verbatim>\<open>item\<close> (the tree item, held here by its id) and, for a
  suite, \<^verbatim>\<open>children\<close>. A case has no \<^verbatim>\<open>children\<close> property: reading it gives
  \<^verbatim>\<open>undefined\<close>, and \<^verbatim>\<open>new Set(undefined)\<close> is the empty set, hence \<open>[]\<close>.
\<close>

datatype node =
    is_TestCase: TestCase (pattern: string) (isEach: bool) (item: string) (caseIndex: nat)
  | is_TestDescribe: TestDescribe (pattern: string) (isEach: bool) (item: string) (children: "node list")
where
  "children (TestCase p e i k) = []"

text \<open>
  A runtime task as the synchronizer walks it: a test, or a suite with its
  sub-tasks (the runtime's \<^verbatim>\<open>Task\<close> is the union of the two, told apart by the
  field \<^verbatim>\<open>type\<close>), with its name and its result. A run is observed through the
  notifications it receives, in order.
\<close>

datatype task =
    Test (tname: string) (tresult: "task_result option")
  | Suite (tname: string) (tresult: "task_result option") (ttasks: "task list")

fun ttype :: "task \<Rightarrow> task_type" where
  "ttype (Test nm res) = TTest"
| "ttype (Suite nm res sub) = TSuite"

datatype run_event =
    Started string
  | Passed string "int option"
  | Failed string string
  | Skipped string

datatype error = TypeError | UnexpectedBlockType | SyntaxError | ParseError | IllegalArgument

text \<open>
  The approximate search is the library Fuse.js, configured with the key
  \<^verbatim>\<open>pattern\<close>: it takes the candidates and the query and returns the candidates it
  retains, best first. It is a parameter of the model.
\<close>

type_synonym fuse = "node list \<Rightarrow> string \<Rightarrow> node list"

text \<open>
  A candidate is of the kind asked for when it is a \<^verbatim>\<open>TestDescribe\<close> for the type
  \<^verbatim>\<open>suite\<close> and a \<^verbatim>\<open>TestCase\<close> for the type \<^verbatim>\<open>test\<close>.
\<close>

definition sameKind :: "task_type \<Rightarrow> node \<Rightarrow> bool" where
  "sameKind ty c = (case ty of TSuite \<Rightarrow> is_TestDescribe c | TTest \<Rightarrow> is_TestCase c)"

text \<open>
  The loop of \<^verbatim>\<open>matchTask\<close>: the candidates are scanned in the insertion order of
  the set; a candidate of the other kind is skipped; the first one whose pattern
  is the task's name ends the scan.
\<close>

fun exactScan :: "task_type \<Rightarrow> string \<Rightarrow> node list \<Rightarrow> node option" where
  "exactScan ty nm [] = None"
| "exactScan ty nm (candidate # candidates) =
     (if ty = TSuite \<and> \<not> is_TestDescribe candidate then exactScan ty nm candidates
      else if ty = TTest \<and> \<not> is_TestCase candidate then exactScan ty nm candidates
      else if pattern candidate = nm then Some candidate
      else exactScan ty nm candidates)"

text \<open>
  \<^verbatim>\<open>matchTask\<close> returns the answer (\<open>None\<close> for \<^verbatim>\<open>undefined\<close>) and the candidate set
  as it leaves it. The set holds distinct objects in insertion order; the list
  stands for it, and \<^verbatim>\<open>candidates.delete(ans)\<close> removes the object found, which
  is the first element equal to it, since the scan stops at the first element
  that satisfies its test.
\<close>

definition matchTask :: "fuse \<Rightarrow> task \<Rightarrow> node list \<Rightarrow> task_type \<Rightarrow> node option \<times> node list" where
  "matchTask search task candidates ty =
     (case exactScan ty (tname task) candidates of
        Some ans \<Rightarrow> (Some ans, remove1 ans candidates)
      | None \<Rightarrow>
          (case search candidates (tname task) of
             [] \<Rightarrow> (None, candidates)
           | best # _ \<Rightarrow> (Some best, candidates)))"

text \<open>
  The branch of \<^verbatim>\<open>sync\<close> for a task of type \<^verbatim>\<open>test\<close>: the notifications it
  sends, or the \<^verbatim>\<open>TypeError\<close> that reading \<^verbatim>\<open>data.item\<close> raises when
  \<^verbatim>\<open>data\<close> is \<^verbatim>\<open>undefined\<close>. The expression is only evaluated in the branches
  that notify.
\<close>

definition errorMessage :: "task_result \<Rightarrow> string" where
  "errorMessage r =
     (case error r of
        None \<Rightarrow> []
      | Some e \<Rightarrow> (case message e of None \<Rightarrow> [] | Some m \<Rightarrow> m))"

definition dataItem :: "node option \<Rightarrow> (string \<Rightarrow> run_event) \<Rightarrow> error + run_event list" where
  "dataItem data notify = (case data of None \<Rightarrow> Inl TypeError | Some d \<Rightarrow> Inr [notify (item d)])"

definition syncTest :: "bool \<Rightarrow> task \<Rightarrow> node option \<Rightarrow> error + run_event list" where
  "syncTest finished task data =
     (case tresult task of
        None \<Rightarrow> if finished then dataItem data Skipped else Inr []
      | Some r \<Rightarrow>
          (case state r of
             Pass \<Rightarrow> dataItem data (\<lambda>i. Passed i (duration r))
           | Fail \<Rightarrow> dataItem data (\<lambda>i. Failed i (errorMessage r))
           | Skip \<Rightarrow> dataItem data Skipped
           | Todo \<Rightarrow> dataItem data Skipped
           | Run \<Rightarrow> dataItem data Started
           | Only \<Rightarrow> Inr []
           | Unexpected s \<Rightarrow> Inr []))"

text \<open>
  \<^verbatim>\<open>sync(run, vscode, vitest)\<close>: the candidate set is built from the children
  \<^verbatim>\<open>vscode\<close>, and the tasks \<^verbatim>\<open>vitest\<close> are walked in order. The result is the run
  with the notifications sent so far, and the exception that ended the walk, if
  one was raised: the notifications sent before it stay sent.
\<close>

fun sync :: "fuse \<Rightarrow> bool \<Rightarrow> node list \<Rightarrow> task list \<Rightarrow> run_event list
    \<Rightarrow> run_event list \<times> error option" where
  "sync search finished candidates [] run = (run, None)"
| "sync search finished candidates (Test nm res # vitest) run =
     (case matchTask search (Test nm res) candidates TTest of
        (data, candidates') \<Rightarrow>
          (case syncTest finished (Test nm res) data of
             Inl e \<Rightarrow> (run, Some e)
           | Inr events \<Rightarrow> sync search finished candidates' vitest (run @ events)))"
| "sync search finished candidates (Suite nm res sub # vitest) run =
     (case matchTask search (Suite nm res sub) candidates TSuite of
        (data, candidates') \<Rightarrow>
          (case data of
             None \<Rightarrow> (run, Some TypeError)
           | Some d \<Rightarrow>
               (case sync search finished (children d) sub run of
                  (run', Some e) \<Rightarrow> (run', Some e)
                | (run', None) \<Rightarrow> sync search finished candidates' vitest run')))"

text \<open>
  A stand-in for the approximate search, for concrete runs: it retains, in
  pool order, the candidates whose pattern is an initial part of the query.
\<close>

definition prefixSearch :: fuse where
  "prefixSearch candidates query =
     filter (\<lambda>c. take (length (pattern c)) query = pattern c) candidates"

section \<open>Tree items and re-running files (src/src/watch.ts)\<close>

text \<open>
  A tree item of the test explorer, by value: its id, label, uri, range, tags and
  children. The uri is held by its string form and its file-system path. The range
  is the pair of positions the item is given (line, character, line, character).
\<close>

datatype tag = OpenTestTag | Tag string

record uri =
  uri_string :: string
  fsPath :: string

datatype item = TestItem (item_id: string) (label: string) (item_uri: uri)
  (item_range: "(int \<times> nat \<times> int \<times> nat) option") (tags: "tag list") (item_children: "item list")

text \<open>
  The local function \<^verbatim>\<open>started\<close> of \<^verbatim>\<open>runFiles\<close>: it reports the item as started,
  then each child in turn, recursively.
\<close>

fun started :: "item \<Rightarrow> run_event list" where
  "started (TestItem i l u r t cs) = Started i # concat (map started cs)"

text \<open>The item with all its descendants, each parent before its children.\<close>

fun descendants :: "item \<Rightarrow> item list" where
  "descendants (TestItem i l u r t cs) = TestItem i l u r t cs # concat (map descendants cs)"

text \<open>
  \<^verbatim>\<open>getTasks\<close> is imported from the runtime's client library
  (\<^verbatim>\<open>@vitest/ws-client\<close>), not defined in this repository. Modelled from the
  library, where it is
  \<^verbatim>\<open>toArray(tasks).flatMap(s => s.type === 'test' ? [s] : [s, ...getTasks(s.tasks)])\<close>:
  the tasks of a subtree, a test as itself and a suite as itself followed by the
  tasks of its sub-tasks.
\<close>

fun getTasks :: "task \<Rightarrow> task list" where
  "getTasks (Test nm res) = [Test nm res]"
| "getTasks (Suite nm res sub) = Suite nm res sub # concat (map getTasks sub)"

text \<open>
  A file of the runtime is a suite with a path. \<open>deleteResults\<close> is the effect, on
  the task tree held by value, of
  \<^verbatim>\<open>delete f.result; getTasks(f).forEach((i) => delete i.result)\<close>.
\<close>

record File =
  filepath :: string
  ftask :: task

fun deleteResult :: "task \<Rightarrow> task" where
  "deleteResult (Test nm res) = Test nm None"
| "deleteResult (Suite nm res sub) = Suite nm None (map deleteResult sub)"

definition deleteResults :: "File \<Rightarrow> File" where
  "deleteResults f = f\<lparr>ftask := deleteResult (ftask f)\<rparr>"

text \<open>
  \<^verbatim>\<open>runFiles(files)\<close>. The watcher's \<^verbatim>\<open>vitestState\<close> is present or not; \<^verbatim>\<open>run\<close> is the
  current run, if any, seen through the notifications it has received. The
  discoverer gives the tree item of a path (\<^verbatim>\<open>discoverTestFromPath(...).item\<close>); it
  is a parameter. The result is the run, the files as the call leaves them, and
  the paths of the \<^verbatim>\<open>rerun\<close> request, the last statement of the function, or
  \<open>None\<close> when the function returned before it.
\<close>

definition runFiles :: "(string \<Rightarrow> item) \<Rightarrow> bool \<Rightarrow> run_event list option \<Rightarrow> File list
    \<Rightarrow> run_event list option \<times> File list \<times> string list option" where
  "runFiles discoverItem vitestState run files =
     (if \<not> vitestState then (run, files, None)
      else
        let run0 = (case run of None \<Rightarrow> [] | Some r \<Rightarrow> r);
            run1 = foldl (\<lambda>r file. r @ started (discoverItem (filepath file))) run0 files;
            files' = map deleteResults files
        in (Some run1, files', Some (map filepath files')))"

section \<open>The continuous-run scheduler (src/src/worker/watcher.ts)\<close>

text \<open>
  The fields of \<^verbatim>\<open>VitestWatcher\<close>, and the part of the runtime context that the
  replaced \<^verbatim>\<open>scheduleRerun\<close> reads and writes. The two sets of the context are
  held as lists in insertion order.
\<close>

record VitestWatcher =
  files :: "string list"
  testNamePattern :: "string option"
  watchEveryFile :: bool
  rerunTriggered :: bool
  enabled :: bool

record ctx =
  changedTests :: "string list"
  invalidates :: "string list"
  configOverride_testNamePattern :: "string option"

record project =
  project_name :: string
  browser_enabled :: bool

datatype action =
    AstCollect "(project \<times> string) list"
  | OriginalScheduleRerun "string list"

definition startsWith :: "string \<Rightarrow> string \<Rightarrow> bool" where
  "startsWith s p = (take (length p) s = p)"

definition isTestFileWatched :: "VitestWatcher \<Rightarrow> string \<Rightarrow> bool" where
  "isTestFileWatched st testFile =
     (if files st = [] then False
      else list_ex (\<lambda>file.
             if file = testFile then True
             else if file \<noteq> [] \<and> last file = CHR ''/'' then startsWith testFile file
             else False) (files st))"

text \<open>
  The replaced \<^verbatim>\<open>scheduleRerun(files)\<close>. Parameters: the runtime's
  \<^verbatim>\<open>getProjectsByTestFile\<close>, the constant \<^verbatim>\<open>Vitest.COLLECT_NAME_PATTERN\<close>, and which
  sources \<^verbatim>\<open>new RegExp\<close> accepts (it raises a \<^verbatim>\<open>SyntaxError\<close> on the others). The
  result is the watcher, the context, and either the exception raised or the calls
  made to the collaborators, in order; the last one hands over to the runtime's
  own \<^verbatim>\<open>scheduleRerun\<close>, which re-runs the changed tests of the context. Log lines
  are left out.
\<close>

definition scheduleRerun ::
  "(string \<Rightarrow> (project \<times> string) list) \<Rightarrow> string \<Rightarrow> (string \<Rightarrow> bool)
    \<Rightarrow> VitestWatcher \<Rightarrow> ctx \<Rightarrow> string list \<Rightarrow> VitestWatcher \<times> ctx \<times> (error + action list)" where
  "scheduleRerun getProjectsByTestFile COLLECT_NAME_PATTERN validRegExp st this fs =
     (let isTestFileTrigger = (case fs of [] \<Rightarrow> False | triggerFile # _ \<Rightarrow> triggerFile \<in> set (changedTests this))
      in
      if \<not> enabled st then
        if \<not> isTestFileTrigger then
          (st, this\<lparr>changedTests := [], invalidates := []\<rparr>, Inr [OriginalScheduleRerun fs])
        else
          let specs = concat (map getProjectsByTestFile (changedTests this));
              browserSpecs = filter (\<lambda>spec. browser_enabled (fst spec)) specs
          in
          if \<not> validRegExp COLLECT_NAME_PATTERN then (st, this, Inl SyntaxError)
          else
            let this1 = this\<lparr>configOverride_testNamePattern := Some COLLECT_NAME_PATTERN\<rparr>
            in
            if browserSpecs \<noteq> [] then
              (st, this1, Inr [AstCollect browserSpecs, OriginalScheduleRerun []])
            else (st, this1, Inr [OriginalScheduleRerun fs])
      else
        let st1 = st\<lparr>rerunTriggered := True\<rparr>;
            source = (case testNamePattern st of
                        None \<Rightarrow> None
                      | Some s \<Rightarrow> if s = [] then None else Some s)
        in
        if (case source of None \<Rightarrow> False | Some s \<Rightarrow> \<not> validRegExp s) then (st1, this, Inl SyntaxError)
        else
          let this1 = this\<lparr>configOverride_testNamePattern := source\<rparr>
          in
          if watchEveryFile st then (st1, this1, Inr [OriginalScheduleRerun fs])
          else
            let this2 =
                  (if \<not> isTestFileTrigger
                   then this1\<lparr>changedTests := filter (isTestFileWatched st) (changedTests this1)\<rparr>
                   else this1)
            in (st1, this2, Inr [OriginalScheduleRerun fs]))"

text \<open>
  A watcher tracking the single test file \<^verbatim>\<open>/p/test/divide.test.ts\<close>
  (\<^verbatim>\<open>trackTests\<close>), and a context.
\<close>

definition tracking :: VitestWatcher where
  "tracking = \<lparr>files = [''/p/test/divide.test.ts''], testNamePattern = None,
                watchEveryFile = False, rerunTriggered = False, enabled = True\<rparr>"

definition changed :: "string list \<Rightarrow> ctx" where
  "changed tests = \<lparr>changedTests = tests, invalidates = [], configOverride_testNamePattern = None\<rparr>"

section \<open>Static discovery: building the tree of a file (src/src/discover.ts)\<close>

text \<open>
  A block as the parser returns it. Its type is \<^verbatim>\<open>describe\<close>, \<^verbatim>\<open>it\<close> or something
  else (\<open>OtherBlock\<close>, for which the loop throws). The code reads \<^verbatim>\<open>start\<close>, \<^verbatim>\<open>end\<close>
  and \<^verbatim>\<open>name\<close> with non-null assertions: the blocks of the model carry them.
  The parser counts lines from 1 and columns from 0; the model keeps the line 0,
  on which the loop throws.
\<close>

datatype block_type = Describe | It | OtherBlock string

record position =
  line :: nat
  column :: nat

record NamedBlock =
  btype :: block_type
  bname :: string
  bstart :: position
  bend :: position
  lastProperty :: "string option"

text \<open>
  An entry of the array \<^verbatim>\<open>ancestors\<close>. The array is used as a stack; the model
  holds it with its last entry (the top) first, so that \<^verbatim>\<open>ancestors.slice(1)\<close>, the
  entries above the file's, is \<open>rev (butlast ancestors)\<close>.

  The tree is built by value. In the code an entry also holds two objects,
  \<^verbatim>\<open>item\<close> and \<^verbatim>\<open>data\<close>, that are shared with the tree: for the entry at the
  bottom they are the file's item and its \<^verbatim>\<open>TestFile\<close>; for an entry pushed for a
  suite they are the objects that were last appended to the \<^verbatim>\<open>children\<close> and the
  \<^verbatim>\<open>dataChildren\<close> of the entry beneath it (nothing is appended to an entry while
  another one is above it). The model does not copy them into the entry: the
  assignments made when an entry is popped, on \<^verbatim>\<open>top.item.children\<close> and
  \<^verbatim>\<open>top.data.children\<close>, are made on the last element of the two lists of the
  entry beneath, or on the file's item and \<^verbatim>\<open>TestFile\<close> for the bottom entry.
\<close>

record frame =
  f_block :: "NamedBlock option"
  f_children :: "item list"
  f_dataChildren :: "node list"

text \<open>
  What the function works on: the file's item, the children of its \<^verbatim>\<open>TestFile\<close>,
  and the keys of the controller's map in \<^verbatim>\<open>testItemIdMap\<close>, in insertion order
  (the map sends an id to the item object registered last under it; the model
  keeps the keys).
\<close>

record world =
  fileItem :: item
  fileData :: "node list"
  testItemIds :: "string list"

definition mapSet :: "string \<Rightarrow> string list \<Rightarrow> string list" where
  "mapSet k ks = (if k \<in> set ks then ks else ks @ [k])"

definition replaceChildren :: "item \<Rightarrow> item list \<Rightarrow> item" where
  "replaceChildren i cs = TestItem (item_id i) (label i) (item_uri i) (item_range i) (tags i) cs"

fun setChildren :: "node \<Rightarrow> node list \<Rightarrow> node" where
  "setChildren (TestDescribe p e i old) cs = TestDescribe p e i cs"
| "setChildren (TestCase p e i k) cs = TestCase p e i k"

definition onLast :: "('a \<Rightarrow> 'a) \<Rightarrow> 'a list \<Rightarrow> 'a list" where
  "onLast f xs = (if xs = [] then [] else butlast xs @ [f (last xs)])"

text \<open>
  \<^verbatim>\<open>const top = ancestors.pop(); if (top) { top.item.children.replace(top.children);
  top.data.children = [...top.dataChildren] }\<close>
\<close>

fun pop :: "frame list \<Rightarrow> world \<Rightarrow> frame list \<times> world" where
  "pop [] w = ([], w)"
| "pop [entry] w =
     ([], w\<lparr>fileItem := replaceChildren (fileItem w) (f_children entry),
             fileData := f_dataChildren entry\<rparr>)"
| "pop (entry # parent # rest) w =
     (parent\<lparr>f_children := onLast (\<lambda>c. replaceChildren c (f_children entry)) (f_children parent),
             f_dataChildren := onLast (\<lambda>d. setChildren d (f_dataChildren entry)) (f_dataChildren parent)\<rparr>
        # rest, w)"

lemma pop_length: "length (fst (pop ancestors w)) = length ancestors - 1"
  by (cases "(ancestors, w)" rule: pop.cases) simp_all

text \<open>
  The loop of \<^verbatim>\<open>getParent\<close>:
  \<^verbatim>\<open>while (parent.block && block.start.line >= parent.block.end.line)\<close>. Reading
  \<^verbatim>\<open>parent.block\<close> when the array is empty raises a \<^verbatim>\<open>TypeError\<close>.
\<close>

function getParentWhile :: "NamedBlock \<Rightarrow> frame list \<Rightarrow> world \<Rightarrow> frame list \<times> world \<times> error option" where
  "getParentWhile block [] w = ([], w, Some TypeError)"
| "getParentWhile block (parent # below) w =
     (case f_block parent of
        None \<Rightarrow> (parent # below, w, None)
      | Some pblock \<Rightarrow>
          if line (bstart block) \<ge> line (bend pblock)
          then getParentWhile block (fst (pop (parent # below) w)) (snd (pop (parent # below) w))
          else (parent # below, w, None))"
  by pat_completeness auto
termination
  by (relation "measure (\<lambda>(block, ancestors, w). length ancestors)")
    (simp_all add: pop_length split_def)

definition getParent :: "NamedBlock \<Rightarrow> frame list \<Rightarrow> world \<Rightarrow> frame list \<times> world \<times> error option" where
  "getParent block ancestors w =
     (case ancestors of
        [] \<Rightarrow> ([], w, Some TypeError)
      | parent # below \<Rightarrow>
          if f_block parent = None then (ancestors, w, None)
          else getParentWhile block ancestors w)"

text \<open>
  \<^verbatim>\<open>Array.join(' ')\<close> and the decimal form of an index in a template string.
  \<^verbatim>\<open>String.prototype.trim\<close> is the language's: it removes from both ends the white
  space and the line terminators of Unicode, which a string of bytes cannot tell
  apart. It is a parameter \<open>trim\<close> of the model.
\<close>

fun joinSpace :: "string list \<Rightarrow> string" where
  "joinSpace [] = []"
| "joinSpace [x] = x"
| "joinSpace (x # y # ys) = x @ '' '' @ joinSpace (y # ys)"

definition digit :: "nat \<Rightarrow> char" where
  "digit d = char_of (48 + d)"

fun showNat :: "nat \<Rightarrow> string" where
  "showNat n = (if n < 10 then [digit n] else showNat (n div 10) @ [digit (n mod 10)])"

text \<open>
  \<^verbatim>\<open>ancestors.slice(1).map(x => x.block?.name || '').concat([block.name]).join(' ').trim()\<close>
\<close>

definition fullName :: "(string \<Rightarrow> string) \<Rightarrow> frame list \<Rightarrow> NamedBlock \<Rightarrow> string" where
  "fullName trim ancestors block =
     trim (joinSpace (map (\<lambda>x. case f_block x of None \<Rightarrow> [] | Some b \<Rightarrow> bname b)
                          (rev (butlast ancestors)) @ [bname block]))"

definition makeId :: "uri \<Rightarrow> string \<Rightarrow> nat \<Rightarrow> string" where
  "makeId u full index = uri_string u @ ''/'' @ full @ ''@'' @ showNat index"

text \<open>
  \<^verbatim>\<open>new vscode.Range(start, end)\<close> on two positions, each a line and a character:
  when \<^verbatim>\<open>start\<close> is not before \<^verbatim>\<open>end\<close> the editor swaps them.
\<close>

definition Range :: "int \<times> nat \<Rightarrow> int \<times> nat \<Rightarrow> int \<times> nat \<times> int \<times> nat" where
  "Range s e =
     (if fst s < fst e \<or> (fst s = fst e \<and> snd s < snd e)
      then (fst s, snd s, fst e, snd e) else (fst e, snd e, fst s, snd s))"

text \<open>
  The loop over the sorted blocks, with its two counters. The result is the
  array, the world, and the exception that ended the loop, if one was raised.
  The item is created and registered in the id map first; then its range is
  built with \<^verbatim>\<open>new vscode.Position(block.start.line - 1, ...)\<close> and
  \<^verbatim>\<open>new vscode.Position(block.end.line - 1, ...)\<close>, and the editor's \<^verbatim>\<open>Position\<close>
  throws on a negative line, that is when a line of the block is 0 (a column is
  a natural number here); only then is the item appended to the parent.
\<close>

fun discoverLoop :: "(string \<Rightarrow> string) \<Rightarrow> uri \<Rightarrow> NamedBlock list \<Rightarrow> nat \<Rightarrow> nat \<Rightarrow> frame list \<Rightarrow> world
    \<Rightarrow> frame list \<times> world \<times> error option" where
  "discoverLoop trim u [] index testCaseIndex ancestors w = (ancestors, w, None)"
| "discoverLoop trim u (block # arr) index testCaseIndex ancestors w =
     (case getParent block ancestors w of
        (ancestors1, w1, Some e) \<Rightarrow> (ancestors1, w1, Some e)
      | ([], w1, None) \<Rightarrow> ([], w1, Some TypeError)
      | (parent # below, w1, None) \<Rightarrow>
          let ident = makeId u (fullName trim (parent # below) block) index;
              w2 = w1\<lparr>testItemIds := mapSet ident (testItemIds w1)\<rparr>
          in
          if line (bstart block) = 0 \<or> line (bend block) = 0
          then (parent # below, w2, Some IllegalArgument)
          else
            let caseItem = TestItem ident (bname block) u
                  (Some (Range (int (line (bstart block)) - 1, column (bstart block))
                               (int (line (bend block)) - 1, column (bend block)))) [] [];
                parent1 = parent\<lparr>f_children := f_children parent @ [caseItem]\<rparr>;
                isEach = (lastProperty block = Some ''each'')
            in
            (case btype block of
               Describe \<Rightarrow>
                 let data = TestDescribe (bname block) isEach ident [];
                     parent2 = parent1\<lparr>f_dataChildren := f_dataChildren parent1 @ [data]\<rparr>
                 in discoverLoop trim u arr (index + 1) testCaseIndex
                      (\<lparr>f_block = Some block, f_children = [], f_dataChildren = []\<rparr>
                         # parent2 # below) w2
             | It \<Rightarrow>
                 let testCase = TestCase (bname block) isEach ident testCaseIndex;
                     parent2 = parent1\<lparr>f_dataChildren := f_dataChildren parent1 @ [testCase]\<rparr>
                 in discoverLoop trim u arr (index + 1) (testCaseIndex + 1) (parent2 # below) w2
             | OtherBlock t \<Rightarrow> (parent1 # below, w2, Some UnexpectedBlockType)))"

text \<open>\<^verbatim>\<open>while (ancestors.length) { const top = ancestors.pop(); ... }\<close>\<close>

function popAll :: "frame list \<Rightarrow> world \<Rightarrow> world" where
  "popAll [] w = w"
| "popAll (entry # rest) w = popAll (fst (pop (entry # rest) w)) (snd (pop (entry # rest) w))"
  by pat_completeness auto
termination
  by (relation "measure (\<lambda>(ancestors, w). length ancestors)")
    (simp_all add: pop_length split_def)

text \<open>
  The last loops give every item reachable from the file's item the same tags.
\<close>

fun setTags :: "tag list \<Rightarrow> item \<Rightarrow> item" where
  "setTags ts (TestItem i l u r old cs) = TestItem i l u r ts (map (setTags ts) cs)"

text \<open>
  \<^verbatim>\<open>discoverTestFromFileContent(controller, content, fileItem, data)\<close>. The parser
  is a parameter, after \<open>trim\<close>: it fails, or returns the \<^verbatim>\<open>describe\<close> blocks and the
  \<^verbatim>\<open>it\<close> blocks.
  \<^verbatim>\<open>textDocuments\<close> are the paths of the documents open in the editor. The sort is
  stable, as the language requires of \<^verbatim>\<open>Array.sort\<close>. A parser failure is caught
  and logged and the function returns; the exception of the loop is not caught.
\<close>

definition discoverTestFromFileContent ::
  "(string \<Rightarrow> string) \<Rightarrow> (string \<Rightarrow> string \<Rightarrow> error + (NamedBlock list \<times> NamedBlock list))
    \<Rightarrow> string list \<Rightarrow> string \<Rightarrow> world \<Rightarrow> world \<times> error option" where
  "discoverTestFromFileContent trim parse textDocuments content w =
     (let w0 = w\<lparr>testItemIds := mapSet (item_id (fileItem w)) (testItemIds w)\<rparr>;
          root = \<lparr>f_block = None, f_children = [], f_dataChildren = []\<rparr>
      in
      case parse (item_id (fileItem w0)) content of
        Inl e \<Rightarrow> (w0, None)
      | Inr (describeBlocks, itBlocks) \<Rightarrow>
          let arr = sort_key (\<lambda>b. line (bstart b)) (describeBlocks @ itBlocks)
          in
          (case discoverLoop trim (item_uri (fileItem w0)) arr 0 0 [root] w0 of
             (ancestors, w1, Some e) \<Rightarrow> (w1, Some e)
           | (ancestors, w1, None) \<Rightarrow>
               let w2 = popAll ancestors w1;
                   isFileOpen = list_ex (\<lambda>x. x = fsPath (item_uri (fileItem w2))) textDocuments;
                   existingTagsWithoutOpenTag = filter (\<lambda>x. x \<noteq> OpenTestTag) (tags (fileItem w2));
                   newTags = (if isFileOpen then existingTagsWithoutOpenTag @ [OpenTestTag]
                              else existingTagsWithoutOpenTag)
               in (w2\<lparr>fileItem := setTags newTags (fileItem w2)\<rparr>, None)))"


text \<open>
  The test of the loop of \<^verbatim>\<open>getParent\<close> on the block of an entry: the entry has a
  block, and the new block starts on the line where that block ends, or below.
\<close>

definition endsBefore :: "NamedBlock \<Rightarrow> NamedBlock option \<Rightarrow> bool" where
  "endsBefore block fb = (case fb of None \<Rightarrow> False | Some pblock \<Rightarrow> line (bend pblock) \<le> line (bstart block))"

text \<open>
  The full name of a block in the words of the specification: the names of the
  suites that enclose it, outermost first, and its own name, joined by spaces.
  The enclosing suites are followed along the sorted list: a suite stays open
  until a block starts on the line where it ends, or below. \<open>fullNames trim st arr\<close>
  are the full names of the blocks of \<open>arr\<close> when the suites \<open>st\<close>, innermost
  first, are open.
\<close>

definition stillOpen :: "NamedBlock \<Rightarrow> NamedBlock list \<Rightarrow> NamedBlock list" where
  "stillOpen block st = dropWhile (\<lambda>s. line (bend s) \<le> line (bstart block)) st"

fun fullNames :: "(string \<Rightarrow> string) \<Rightarrow> NamedBlock list \<Rightarrow> NamedBlock list \<Rightarrow> string list" where
  "fullNames trim st [] = []"
| "fullNames trim st (block # arr) =
     trim (joinSpace (map bname (rev (stillOpen block st)) @ [bname block]))
       # fullNames trim (if btype block = Describe then block # stillOpen block st else stillOpen block st) arr"

text \<open>The ids of the items below an item, each parent before its children.\<close>

definition idsBelow :: "item \<Rightarrow> string list" where
  "idsBelow i = map item_id (concat (map descendants (item_children i)))"

definition blk :: "block_type \<Rightarrow> string \<Rightarrow> nat \<Rightarrow> nat \<Rightarrow> nat \<Rightarrow> nat \<Rightarrow> NamedBlock" where
  "blk t n l1 c1 l2 c2 =
     \<lparr>btype = t, bname = n, bstart = \<lparr>line = l1, column = c1\<rparr>,
      bend = \<lparr>line = l2, column = c2\<rparr>, lastProperty = None\<rparr>"

section \<open>Notions used in the proofs about discovery\<close>

text \<open>
  The ids of a list of items with all their descendants, and the ids held by a
  stack of entries, from the bottom entry to the top one.
\<close>

definition idsOf :: "item list \<Rightarrow> string list" where
  "idsOf cs = map item_id (concat (map descendants cs))"

definition allIds :: "frame list \<Rightarrow> string list" where
  "allIds ancestors = concat (map (\<lambda>f. idsOf (f_children f)) (rev ancestors))"

text \<open>
  A stack is well formed for the open suites \<open>st\<close> (innermost first) when its
  entries carry these blocks, above a bottom entry without block. The item
  last appended to an entry that is not the top is a suite still open: it has
  no children yet.
\<close>

definition stackOf :: "NamedBlock list \<Rightarrow> frame list \<Rightarrow> bool" where
  "stackOf st ancestors = (map f_block ancestors = map Some st @ [None])"

definition openBelow :: "frame list \<Rightarrow> bool" where
  "openBelow ancestors =
     list_all (\<lambda>f. f_children f \<noteq> [] \<and> item_children (last (f_children f)) = []) (tl ancestors)"

text \<open>
  The item made for a block: it carries the name of the block as its label, and
  the range of the block.
\<close>

definition itemOf :: "NamedBlock \<Rightarrow> item \<Rightarrow> bool" where
  "itemOf b x = (label x = bname b
     \<and> item_range x = Some (Range (int (line (bstart b)) - 1, column (bstart b))
                                  (int (line (bend b)) - 1, column (bend b))))"








text \<open>
  A block the loop accepts: a suite or a case, whose lines are counted from 1.
\<close>

definition validBlock :: "NamedBlock \<Rightarrow> bool" where
  "validBlock b = ((btype b = Describe \<or> btype b = It) \<and> 0 < line (bstart b) \<and> 0 < line (bend b))"

text \<open>
  The ids the specification gives to the blocks of \<open>arr\<close>, numbered from \<open>i\<close>.
\<close>

definition expectedIds ::
  "(string \<Rightarrow> string) \<Rightarrow> uri \<Rightarrow> nat \<Rightarrow> NamedBlock list \<Rightarrow> NamedBlock list \<Rightarrow> string list" where
  "expectedIds trim u i st arr =
     map (\<lambda>(k, full). makeId u full k) (zip [i..<i + length arr] (fullNames trim st arr))"

text \<open>
  The tags computed at the end of the function, and the file's item as it is
  published: the new children, and the new tags on every item.
\<close>

definition newTags :: "string list \<Rightarrow> item \<Rightarrow> tag list" where
  "newTags textDocuments i =
     (if list_ex (\<lambda>x. x = fsPath (item_uri i)) textDocuments
      then filter (\<lambda>x. x \<noteq> OpenTestTag) (tags i) @ [OpenTestTag]
      else filter (\<lambda>x. x \<noteq> OpenTestTag) (tags i))"

definition publish :: "string list \<Rightarrow> item list \<Rightarrow> item \<Rightarrow> item" where
  "publish textDocuments cs i = setTags (newTags textDocuments i) (replaceChildren i cs)"

section \<open>Concrete inputs\<close>

text \<open>Three cases of a file \<^verbatim>\<open>m.test.ts\<close>; the last one is parameterized.\<close>

definition add_case :: node where
  "add_case = TestCase ''add'' False ''file:///m.test.ts/add@0'' 0"

definition adds_case :: node where
  "adds_case = TestCase ''adds'' False ''file:///m.test.ts/adds@1'' 1"

definition each_case :: node where
  "each_case = TestCase ''adds'' True ''file:///m.test.ts/adds@0'' 0"

definition failed_result :: task_result where
  "failed_result = \<lparr>state = Fail, duration = None, error = Some \<lparr>message = None\<rparr>\<rparr>"

definition noProjects :: "string \<Rightarrow> (project \<times> string) list" where
  "noProjects f = []"

definition anyRegExp :: "string \<Rightarrow> bool" where
  "anyRegExp s = True"

text \<open>
  The file \<^verbatim>\<open>/m.test.ts\<close> with the suite \<^verbatim>\<open>math\<close> and its cases \<^verbatim>\<open>adds\<close> and
  \<^verbatim>\<open>subtracts\<close>: its tree item, and its runtime file after a run.
\<close>

definition m_uri :: uri where
  "m_uri = \<lparr>uri_string = ''file:///m.test.ts'', fsPath = ''/m.test.ts''\<rparr>"

definition m_item :: item where
  "m_item =
     TestItem ''file:///m.test.ts'' ''m.test.ts'' m_uri None []
       [TestItem ''file:///m.test.ts/math@0'' ''math'' m_uri None []
          [TestItem ''file:///m.test.ts/math adds@1'' ''adds'' m_uri None [] [],
           TestItem ''file:///m.test.ts/math subtracts@2'' ''subtracts'' m_uri None [] []]]"

definition m_discoverer :: "string \<Rightarrow> item" where
  "m_discoverer path = m_item"

definition m_file :: File where
  "m_file =
     \<lparr>filepath = ''/m.test.ts'',
      ftask = Suite ''m.test.ts'' (Some failed_result)
                [Suite ''math'' (Some failed_result)
                   [Test ''adds'' (Some passed_result), Test ''subtracts'' (Some failed_result)]]\<rparr>"

text \<open>
  A stand-in for \<^verbatim>\<open>String.prototype.trim\<close>, for concrete runs: it agrees with it
  on every string of ASCII characters.
\<close>

definition isSpace :: "char \<Rightarrow> bool" where
  "isSpace c = (c \<in> set [CHR '' '', CHR 0x09, CHR 0x0A, CHR 0x0B, CHR 0x0C, CHR 0x0D])"

definition asciiTrim :: "string \<Rightarrow> string" where
  "asciiTrim s = rev (dropWhile isSpace (rev (dropWhile isSpace s)))"

text \<open>
  The world of the file \<^verbatim>\<open>/m.test.ts\<close> before any discovery, and a parser for
  three versions of its text: \<^verbatim>\<open>v1\<close> declares the cases \<^verbatim>\<open>adds\<close> and \<^verbatim>\<open>subtracts\<close>
  on lines 1 and 2; \<^verbatim>\<open>v2\<close> declares the case \<^verbatim>\<open>zero\<close> before them, which moves them
  to lines 2 and 3; \<^verbatim>\<open>v3\<close> wraps the two cases of \<^verbatim>\<open>v1\<close> in the suite \<^verbatim>\<open>math\<close>.
  Any other text fails to parse.
\<close>

definition m_world :: world where
  "m_world = \<lparr>fileItem = TestItem ''file:///m.test.ts'' ''m.test.ts'' m_uri None [] [],
              fileData = [], testItemIds = []\<rparr>"

definition m_parse :: "string \<Rightarrow> string \<Rightarrow> error + (NamedBlock list \<times> NamedBlock list)" where
  "m_parse fid content =
     (if content = ''v1'' then Inr ([], [blk It ''adds'' 1 2 1 30, blk It ''subtracts'' 2 2 2 30])
      else if content = ''v2'' then
        Inr ([], [blk It ''zero'' 1 2 1 30, blk It ''adds'' 2 2 2 30, blk It ''subtracts'' 3 2 3 30])
      else if content = ''v3'' then
        Inr ([blk Describe ''math'' 1 8 4 2], [blk It ''adds'' 2 4 2 30, blk It ''subtracts'' 3 4 3 30])
      else Inl ParseError)"

text \<open>
  A second file: a suite \<^verbatim>\<open>math\<close> with the case \<^verbatim>\<open>adds\<close>, then the same with a case
  \<^verbatim>\<open>zero\<close> written above the suite.
\<close>

definition n_parse :: "string \<Rightarrow> string \<Rightarrow> error + (NamedBlock list \<times> NamedBlock list)" where
  "n_parse fid content =
     (if content = ''w1'' then Inr ([blk Describe ''math'' 1 8 3 2], [blk It ''adds'' 2 4 2 30])
      else if content = ''w2'' then
        Inr ([blk Describe ''math'' 2 8 4 2], [blk It ''zero'' 1 0 1 20, blk It ''adds'' 3 4 3 30])
      else Inl ParseError)"












section \<open>Properties of the state manager\<close>

lemma updateTask_idMap: "idMap (updateTask pack st) = idMap st"
  by (simp add: updateTask_def split: option.splits)

lemma updateTask_filesMap: "filesMap (updateTask pack st) = filesMap st"
  by (simp add: updateTask_def split: option.splits)

lemma updateTask_errorsSet: "errorsSet (updateTask pack st) = errorsSet st"
  by (simp add: updateTask_def split: option.splits)

lemma updateTask_more: "StateManager.more (updateTask pack st) = StateManager.more st"
  by (simp add: updateTask_def split: option.splits)

lemma updateTask_heap:
  "heap (updateTask pack st) r =
     (if idMap st (fst pack) = Some r then (heap st r)\<lparr>result := snd pack\<rparr> else heap st r)"
  by (simp add: updateTask_def split: option.splits)

lemma updateTasks_idMap: "idMap (updateTasks packs st) = idMap st"
  by (induction packs arbitrary: st) (simp_all add: updateTask_idMap)

lemma updateTasks_filesMap: "filesMap (updateTasks packs st) = filesMap st"
  by (induction packs arbitrary: st) (simp_all add: updateTask_filesMap)

lemma updateTasks_errorsSet: "errorsSet (updateTasks packs st) = errorsSet st"
  by (induction packs arbitrary: st) (simp_all add: updateTask_errorsSet)

lemma updateTasks_more: "StateManager.more (updateTasks packs st) = StateManager.more st"
  by (induction packs arbitrary: st) (simp_all add: updateTask_more)

lemma find_append_cases:
  "find P (xs @ ys) = (case find P xs of None \<Rightarrow> find P ys | Some x \<Rightarrow> Some x)"
  by (induction xs) simp_all

lemma updateTasks_heap:
  "heap (updateTasks packs st) r =
     (case lastPackFor st packs r of
        None \<Rightarrow> heap st r
      | Some pack \<Rightarrow> (heap st r)\<lparr>result := snd pack\<rparr>)"
proof (induction packs arbitrary: st)
  case Nil
  show ?case by (simp add: lastPackFor_def)
next
  case (Cons pack packs)
  have same: "lastPackFor (updateTask pack st) packs r = lastPackFor st packs r"
    by (simp add: lastPackFor_def updateTask_idMap)
  show ?case
  proof (cases "lastPackFor st packs r")
    case None
    then show ?thesis
      using Cons.IH [of "updateTask pack st"] same
      by (simp add: lastPackFor_def updateTask_heap find_append_cases split: option.splits)
  next
    case (Some p)
    then show ?thesis
      using Cons.IH [of "updateTask pack st"] same
      by (simp add: lastPackFor_def updateTask_heap find_append_cases split: option.splits)
  qed
qed

lemma lastPackFor_absent:
  "\<forall>pack \<in> set packs. idMap st (fst pack) = None \<Longrightarrow> lastPackFor st packs r = None"
  by (auto simp add: lastPackFor_def find_None_iff)

text \<open>
  C6. A batch of task-update pairs changes nothing but the \<open>result\<close> field of
  the tasks it addresses through the id index: the two indexes and the error set
  are unchanged, an object that no pack addresses is unchanged, an object that
  some pack addresses keeps every field except \<open>result\<close>, which becomes the
  result of the last such pack; and a batch whose ids are all absent from the
  index leaves the whole state unchanged.
\<close>

theorem updateTasks_replaces_result_only:
  "idMap (updateTasks packs st) = idMap st
   \<and> filesMap (updateTasks packs st) = filesMap st
   \<and> errorsSet (updateTasks packs st) = errorsSet st
   \<and> (\<forall>r. heap (updateTasks packs st) r =
          (case lastPackFor st packs r of
             None \<Rightarrow> heap st r
           | Some pack \<Rightarrow> (heap st r)\<lparr>result := snd pack\<rparr>))
   \<and> ((\<forall>pack \<in> set packs. idMap st (fst pack) = None) \<longrightarrow> updateTasks packs st = st)"
proof -
  have absent: "updateTasks packs st = st" if "\<forall>pack \<in> set packs. idMap st (fst pack) = None"
  proof -
    have "heap (updateTasks packs st) = heap st"
      by (rule ext) (simp add: updateTasks_heap lastPackFor_absent [OF that])
    then show ?thesis
      by (simp add: StateManager.equality updateTasks_idMap updateTasks_filesMap
          updateTasks_errorsSet updateTasks_more)
  qed
  show ?thesis
    using absent
    by (simp add: updateTasks_idMap updateTasks_filesMap updateTasks_errorsSet updateTasks_heap)
qed

theorem updateTasks_replaces_result_only_witness:
  "heap (updateTasks [(''t1'', Some passed_result)] collected_state) 1
     = (heap collected_state 1)\<lparr>result := Some passed_result\<rparr>
   \<and> heap (updateTasks [(''t1'', Some passed_result)] collected_state) 2 = heap collected_state 2
   \<and> updateTasks [(''t9'', Some passed_result)] collected_state = collected_state"
  using updateTasks_replaces_result_only [of "[(''t1'', Some passed_result)]" collected_state]
    updateTasks_replaces_result_only [of "[(''t9'', Some passed_result)]" collected_state]
  by (simp add: collected_state_def lastPackFor_def)

section \<open>Properties of the task matcher\<close>

lemma exactScan_find:
  "exactScan ty nm cs = find (\<lambda>c. sameKind ty c \<and> pattern c = nm) cs"
  by (induction cs) (auto simp: sameKind_def split: task_type.splits)

lemma find_Some_split:
  "find P xs = Some x \<Longrightarrow>
     \<exists>pre post. xs = pre @ x # post \<and> P x \<and> (\<forall>y \<in> set pre. \<not> P y) \<and> remove1 x xs = pre @ post"
proof (induction xs)
  case Nil then show ?case by simp
next
  case (Cons a xs)
  show ?case
  proof (cases "P a")
    case True
    with Cons.prems have "a = x" by simp
    with True show ?thesis by (intro exI [of _ "[]"] exI [of _ xs]) simp
  next
    case False
    with Cons.prems have f: "find P xs = Some x" by simp
    from Cons.IH [OF f] obtain pre post where
      h: "xs = pre @ x # post" "P x" "\<forall>y \<in> set pre. \<not> P y" "remove1 x xs = pre @ post" by blast
    from False h(2) have "a \<noteq> x" by auto
    with h False show ?thesis
      by (intro exI [of _ "a # pre"] exI [of _ post]) simp
  qed
qed

text \<open>
  C1. When the pool holds a candidate of the kind asked for whose pattern is the
  task's name, \<^verbatim>\<open>matchTask\<close> returns the first such candidate and leaves the pool
  without it (the candidates before it and after it stay, in order), whatever the
  approximate search would rank first. When the pool holds none, the answer is the
  first result of the approximate search over the whole pool, if any, and the
  pool is left as it was, so that a later task can be given the same node.
\<close>

theorem matchTask_exact_then_fuzzy:
  "(\<forall>c. find (\<lambda>c. sameKind ty c \<and> pattern c = tname task) pool = Some c \<longrightarrow>
        fst (matchTask search task pool ty) = Some c
      \<and> (\<exists>pre post. pool = pre @ c # post
            \<and> (\<forall>y \<in> set pre. \<not> (sameKind ty y \<and> pattern y = tname task))
            \<and> snd (matchTask search task pool ty) = pre @ post))
   \<and> (find (\<lambda>c. sameKind ty c \<and> pattern c = tname task) pool = None \<longrightarrow>
        matchTask search task pool ty =
          (case search pool (tname task) of [] \<Rightarrow> None | best # _ \<Rightarrow> Some best, pool))"
proof (intro conjI allI impI)
  fix c assume f: "find (\<lambda>c. sameKind ty c \<and> pattern c = tname task) pool = Some c"
  then show "fst (matchTask search task pool ty) = Some c"
    by (simp add: matchTask_def exactScan_find)
  from find_Some_split [OF f] obtain pre post where
    h: "pool = pre @ c # post" "\<forall>y \<in> set pre. \<not> (sameKind ty y \<and> pattern y = tname task)"
       "remove1 c pool = pre @ post" by blast
  have "snd (matchTask search task pool ty) = remove1 c pool"
    using f by (simp add: matchTask_def exactScan_find)
  with h show "\<exists>pre post. pool = pre @ c # post
            \<and> (\<forall>y \<in> set pre. \<not> (sameKind ty y \<and> pattern y = tname task))
            \<and> snd (matchTask search task pool ty) = pre @ post"
    by metis
next
  assume "find (\<lambda>c. sameKind ty c \<and> pattern c = tname task) pool = None"
  then show "matchTask search task pool ty =
          (case search pool (tname task) of [] \<Rightarrow> None | best # _ \<Rightarrow> Some best, pool)"
    by (simp add: matchTask_def exactScan_find split: list.splits)
qed

theorem matchTask_exact_then_fuzzy_witness:
  "prefixSearch [add_case, adds_case] ''adds'' = [add_case, adds_case]
   \<and> matchTask prefixSearch (Test ''adds'' None) [add_case, adds_case] TTest
       = (Some adds_case, [add_case])
   \<and> matchTask prefixSearch (Test ''adds [0]'' None) [each_case] TTest
       = (Some each_case, [each_case])
   \<and> matchTask prefixSearch (Test ''adds [1]'' None) [each_case] TTest
       = (Some each_case, [each_case])"
proof -
  let ?t = "Test ''adds'' None"
  have f: "find (\<lambda>c. sameKind TTest c \<and> pattern c = tname ?t) [add_case, adds_case] = Some adds_case"
    by (simp add: sameKind_def add_case_def adds_case_def)
  from matchTask_exact_then_fuzzy [of TTest ?t "[add_case, adds_case]" prefixSearch] f
  obtain pre post where
    a: "fst (matchTask prefixSearch ?t [add_case, adds_case] TTest) = Some adds_case"
    and b: "[add_case, adds_case] = pre @ adds_case # post"
    and c: "snd (matchTask prefixSearch ?t [add_case, adds_case] TTest) = pre @ post"
    by blast
  have ne: "add_case \<noteq> adds_case" by (simp add: add_case_def adds_case_def)
  from b ne have "pre = [add_case] \<and> post = []"
    by (cases pre; cases "tl pre"; cases post) auto
  with a c have exact: "matchTask prefixSearch ?t [add_case, adds_case] TTest = (Some adds_case, [add_case])"
    by (simp add: prod_eq_iff)
  have n0: "find (\<lambda>c. sameKind TTest c \<and> pattern c = tname (Test ''adds [0]'' None)) [each_case] = None"
    by (simp add: each_case_def)
  have n1: "find (\<lambda>c. sameKind TTest c \<and> pattern c = tname (Test ''adds [1]'' None)) [each_case] = None"
    by (simp add: each_case_def)
  have s: "prefixSearch [add_case, adds_case] ''adds'' = [add_case, adds_case]"
       "prefixSearch [each_case] ''adds [0]'' = [each_case]"
       "prefixSearch [each_case] ''adds [1]'' = [each_case]"
    by (simp_all add: prefixSearch_def add_case_def adds_case_def each_case_def)
  show ?thesis
    using exact s
      matchTask_exact_then_fuzzy [of TTest "Test ''adds [0]'' None" "[each_case]" prefixSearch] n0
      matchTask_exact_then_fuzzy [of TTest "Test ''adds [1]'' None" "[each_case]" prefixSearch] n1
    by simp
qed

section \<open>Properties of the run-state synchronizer\<close>

text \<open>
  C2. For a test task whose matcher call returns a node, \<^verbatim>\<open>sync\<close> sends for that
  task exactly the notification its result determines, then goes on with the
  remaining tasks: \<^verbatim>\<open>pass\<close> reports passed (with the duration), \<^verbatim>\<open>fail\<close> reports
  failed with the error message, or the empty string when the error or its
  message is absent, \<^verbatim>\<open>skip\<close> and \<^verbatim>\<open>todo\<close> report skipped, \<^verbatim>\<open>run\<close> reports
  started, \<^verbatim>\<open>only\<close> (and a state outside the list) reports nothing, an absent
  result reports skipped when the run is finished and nothing otherwise.
\<close>

theorem sync_test_transition:
  assumes "matchTask search (Test nm res) pool TTest = (Some d, pool')"
  shows "sync search finished pool (Test nm res # rest) run =
         sync search finished pool' rest
           (run @ (case res of
                     None \<Rightarrow> if finished then [Skipped (item d)] else []
                   | Some r \<Rightarrow>
                      (case state r of
                         Pass \<Rightarrow> [Passed (item d) (duration r)]
                       | Fail \<Rightarrow> [Failed (item d)
                                   (case error r of
                                      None \<Rightarrow> []
                                    | Some e \<Rightarrow> (case message e of None \<Rightarrow> [] | Some m \<Rightarrow> m))]
                       | Skip \<Rightarrow> [Skipped (item d)]
                       | Todo \<Rightarrow> [Skipped (item d)]
                       | Run \<Rightarrow> [Started (item d)]
                       | Only \<Rightarrow> []
                       | Unexpected s \<Rightarrow> [])))"
  using assms
  by (simp add: syncTest_def dataItem_def errorMessage_def split: option.splits task_state.splits)

theorem sync_test_transition_witness:
  "matchTask prefixSearch (Test ''adds'' (Some failed_result)) [adds_case] TTest = (Some adds_case, [])
   \<and> sync prefixSearch True [adds_case] [Test ''adds'' (Some failed_result)] []
       = ([Failed ''file:///m.test.ts/adds@1'' []], None)"
proof -
  have m: "matchTask prefixSearch (Test ''adds'' (Some failed_result)) [adds_case] TTest = (Some adds_case, [])"
    by (simp add: matchTask_def adds_case_def)
  show ?thesis
    using m sync_test_transition [OF m, of True "[]" "[]"]
    by (simp add: failed_result_def adds_case_def)
qed

lemma sync_unmatched_test_raises:
  assumes "matchTask search (Test nm (Some r)) pool TTest = (None, pool')"
    and "state r \<in> {Pass, Fail, Skip, Todo, Run}"
  shows "sync search finished pool (Test nm (Some r) # rest) run = (run, Some TypeError)"
  using assms by (auto simp add: syncTest_def dataItem_def split: task_state.splits)

text \<open>
  C7. A task for which the matcher returns nothing is not skipped: as soon as
  the branch taken reads \<^verbatim>\<open>data.item\<close> (or, for a suite, \<^verbatim>\<open>data.children\<close>), a
  \<^verbatim>\<open>TypeError\<close> is raised and the walk ends, the remaining tasks unvisited. Below,
  first, nothing was discovered in the file and the runtime reports the passed
  test \<^verbatim>\<open>adds\<close>: the search over no candidate has no result, and the pass raises.
  Second, the static tree has the case \<^verbatim>\<open>adds\<close> only; the runtime reports
  \<^verbatim>\<open>divides\<close>, which nothing matches, then \<^verbatim>\<open>adds\<close>: the pass raises and \<^verbatim>\<open>adds\<close> is
  never reported.
\<close>

theorem sync_unmatched_task_raises:
  "matchTask prefixSearch (Test ''adds'' (Some passed_result)) [] TTest = (None, [])
   \<and> sync prefixSearch True [] [Test ''adds'' (Some passed_result)] [] = ([], Some TypeError)
   \<and> matchTask prefixSearch (Test ''divides'' (Some passed_result)) [adds_case] TTest = (None, [adds_case])
   \<and> sync prefixSearch True [adds_case]
        [Test ''divides'' (Some passed_result), Test ''adds'' (Some passed_result)] []
       = ([], Some TypeError)"
  by (simp add: matchTask_def prefixSearch_def adds_case_def syncTest_def dataItem_def passed_result_def)

lemma sync_unmatched_suite_raises:
  assumes "matchTask search (Suite nm res sub) pool TSuite = (None, pool')"
  shows "sync search finished pool (Suite nm res sub # rest) run = (run, Some TypeError)"
  using assms by simp

section \<open>Properties of the continuous-run scheduler\<close>

lemma isTestFileWatched_iff:
  "isTestFileWatched st f \<longleftrightarrow>
     (\<exists>w \<in> set (files st). w = f \<or> (w \<noteq> [] \<and> last w = CHR ''/'' \<and> take (length w) f = w))"
  by (auto simp add: isTestFileWatched_def list_ex_iff startsWith_def split: if_splits)

text \<open>
  C8, as amended. With continuous mode on for an explicit list of files and a
  name pattern that is absent, empty or accepted by \<^verbatim>\<open>RegExp\<close>, the replaced
  \<^verbatim>\<open>scheduleRerun\<close> hands over to the runtime's scheduler with the same files. When
  the trigger (the first file of the notification) is not itself one of the
  changed tests, the changed tests are first narrowed to those that are watched;
  when the trigger is one of the changed tests, they are left as they are. A file
  is watched when it equals a watched entry, or a watched entry ends in \<^verbatim>\<open>/\<close> and
  the file's path starts with it.
\<close>

theorem scheduleRerun_scopes_source_triggers:
  assumes "enabled st" and "\<not> watchEveryFile st"
    and "case testNamePattern st of None \<Rightarrow> True | Some s \<Rightarrow> s = [] \<or> validRegExp s"
  shows "snd (snd (scheduleRerun G C validRegExp st this fs)) = Inr [OriginalScheduleRerun fs]
    \<and> changedTests (fst (snd (scheduleRerun G C validRegExp st this fs))) =
        (if fs \<noteq> [] \<and> hd fs \<in> set (changedTests this) then changedTests this
         else filter (isTestFileWatched st) (changedTests this))
    \<and> (\<forall>f. isTestFileWatched st f \<longleftrightarrow>
          (\<exists>w \<in> set (files st). w = f \<or> (w \<noteq> [] \<and> last w = CHR ''/'' \<and> take (length w) f = w)))"
proof -
  have ok: "\<not> (case (case testNamePattern st of None \<Rightarrow> None | Some s \<Rightarrow> if s = [] then None else Some s) of
              None \<Rightarrow> False | Some s \<Rightarrow> \<not> validRegExp s)"
    using assms(3) by (auto split: option.splits)
  show ?thesis
    using assms(1,2) ok
    by (cases fs) (simp_all add: scheduleRerun_def Let_def isTestFileWatched_iff)
qed


theorem scheduleRerun_scopes_source_triggers_witness:
  "changedTests (fst (snd (scheduleRerun noProjects ''x'' anyRegExp tracking
      (changed [''/p/test/divide.test.ts'', ''/p/test/other.test.ts'']) [''/p/src/calculator.ts''])))
    = [''/p/test/divide.test.ts'']"
proof -
  have a: "enabled tracking" and b: "\<not> watchEveryFile tracking"
    and c: "case testNamePattern tracking of None \<Rightarrow> True | Some s \<Rightarrow> s = [] \<or> anyRegExp s"
    by (simp_all add: tracking_def)
  show ?thesis
    using scheduleRerun_scopes_source_triggers [OF a b c, of noProjects "''x''"
        "changed [''/p/test/divide.test.ts'', ''/p/test/other.test.ts'']" "[''/p/src/calculator.ts'']"]
    by (simp add: changed_def tracking_def isTestFileWatched_def startsWith_def)
qed

text \<open>
  The claim as stated fails when the trigger is a changed test file that is not
  watched: the changed tests handed to the runtime's scheduler still hold it,
  while the intersection with the watched files is empty.
\<close>

theorem scheduleRerun_test_trigger_counterexample:
  "enabled tracking \<and> \<not> watchEveryFile tracking \<and> files tracking \<noteq> []
   \<and> set (changedTests (fst (snd (scheduleRerun noProjects ''x'' anyRegExp tracking
          (changed [''/p/test/other.test.ts'']) [''/p/test/other.test.ts'']))))
      \<noteq> set (filter (isTestFileWatched tracking) [''/p/test/other.test.ts''])"
  by (simp add: scheduleRerun_def tracking_def changed_def isTestFileWatched_def startsWith_def)

section \<open>Properties of re-running files\<close>

lemma started_descendants: "started i = map (\<lambda>d. Started (item_id d)) (descendants i)"
proof (induction i)
  case (TestItem i l u r t cs)
  have "concat (map started cs) = concat (map (\<lambda>c. map (\<lambda>d. Started (item_id d)) (descendants c)) cs)"
    using TestItem.IH by (induction cs) simp_all
  then show ?case by (simp add: map_concat comp_def)
qed

lemma foldl_append_concat: "foldl (\<lambda>r x. r @ g x) r0 xs = r0 @ concat (map g xs)"
  by (induction xs arbitrary: r0) simp_all

lemma getTasks_deleteResult_None: "t' \<in> set (getTasks (deleteResult t)) \<Longrightarrow> tresult t' = None"
proof (induction t arbitrary: t')
  case (Test nm res) then show ?case by simp
next
  case (Suite nm res sub) then show ?case by auto
qed

lemma getTasks_deleteResult_names:
  "map tname (getTasks (deleteResult t)) = map tname (getTasks t)"
proof (induction t)
  case (Test nm res) show ?case by simp
next
  case (Suite nm res sub)
  have "concat (map (\<lambda>x. map tname (getTasks (deleteResult x))) sub) = concat (map (\<lambda>x. map tname (getTasks x)) sub)"
    using Suite.IH by (induction sub) simp_all
  then show ?case by (simp add: map_concat comp_def)
qed

text \<open>
  C10. A call of \<^verbatim>\<open>runFiles\<close> that reaches the \<^verbatim>\<open>rerun\<close> request (the watcher has
  its \<^verbatim>\<open>vitestState\<close>) has, by then, reported as started the tree item of every
  listed file followed by all its descendants, file after file, and has deleted
  the result of every listed file and of every task of its subtree; the files
  keep their paths and their tasks, and the request carries the paths. A call
  made without \<^verbatim>\<open>vitestState\<close> returns at once: nothing is reported, deleted or
  requested.
\<close>

theorem runFiles_deletes_results_and_starts:
  "fst (runFiles discoverItem True run fs) =
      Some ((case run of None \<Rightarrow> [] | Some r \<Rightarrow> r)
            @ concat (map (\<lambda>f. map (\<lambda>d. Started (item_id d)) (descendants (discoverItem (filepath f)))) fs))
   \<and> snd (snd (runFiles discoverItem True run fs)) = Some (map filepath fs)
   \<and> map filepath (fst (snd (runFiles discoverItem True run fs))) = map filepath fs
   \<and> map (\<lambda>f. map tname (getTasks (ftask f))) (fst (snd (runFiles discoverItem True run fs)))
       = map (\<lambda>f. map tname (getTasks (ftask f))) fs
   \<and> (\<forall>f \<in> set (fst (snd (runFiles discoverItem True run fs))).
        \<forall>t \<in> set (getTasks (ftask f)). tresult t = None)
   \<and> runFiles discoverItem False run fs = (run, fs, None)"
  by (auto simp add: runFiles_def Let_def foldl_append_concat started_descendants deleteResults_def
      comp_def getTasks_deleteResult_names dest: getTasks_deleteResult_None)

theorem runFiles_deletes_results_and_starts_witness:
  "runFiles m_discoverer True None [m_file] =
     (Some [Started ''file:///m.test.ts'', Started ''file:///m.test.ts/math@0'',
            Started ''file:///m.test.ts/math adds@1'', Started ''file:///m.test.ts/math subtracts@2''],
      [\<lparr>filepath = ''/m.test.ts'',
        ftask = Suite ''m.test.ts'' None [Suite ''math'' None [Test ''adds'' None, Test ''subtracts'' None]]\<rparr>],
      Some [''/m.test.ts''])"
  using runFiles_deletes_results_and_starts [of m_discoverer None "[m_file]"]
  by (simp add: runFiles_def m_discoverer_def m_item_def m_file_def deleteResults_def)

section \<open>Properties of static discovery\<close>

lemma pop_blocks: "map f_block (fst (pop ancestors w)) = tl (map f_block ancestors)"
  by (cases "(ancestors, w)" rule: pop.cases) simp_all



lemma getParentWhile_error:
  "snd (snd (getParentWhile block ancestors w)) = (if fst (getParentWhile block ancestors w) = [] then Some TypeError else None)"
  by (induction block ancestors w rule: getParentWhile.induct) (simp_all split: option.splits)

lemma getParent_error:
  "snd (snd (getParent block ancestors w)) = (if fst (getParent block ancestors w) = [] then Some TypeError else None)"
  by (cases ancestors) (simp_all add: getParent_def getParentWhile_error del: getParentWhile.simps)

lemma idsOf_append [simp]: "idsOf (xs @ ys) = idsOf xs @ idsOf ys"
  by (simp add: idsOf_def)

lemma idsOf_Nil [simp]: "idsOf [] = []"
  by (simp add: idsOf_def)

lemma idsOf_single: "idsOf [c] = item_id c # idsOf (item_children c)"
  by (cases c) (simp add: idsOf_def)

lemma idsOf_replaceChildren: "idsOf [replaceChildren c cs] = item_id c # idsOf cs"
  by (simp add: idsOf_single replaceChildren_def)

lemma idsOf_onLast:
  assumes "cs \<noteq> []" and "item_children (last cs) = []"
  shows "idsOf (onLast (\<lambda>c. replaceChildren c new) cs) = idsOf cs @ idsOf new"
proof -
  from assms(1) have split: "cs = butlast cs @ [last cs]" by simp
  have "idsOf cs = idsOf (butlast cs) @ [item_id (last cs)]"
    using assms(2) by (subst split) (simp add: idsOf_single)
  moreover have "idsOf (onLast (\<lambda>c. replaceChildren c new) cs)
      = idsOf (butlast cs) @ item_id (last cs) # idsOf new"
    using assms(1) by (simp add: onLast_def idsOf_replaceChildren)
  ultimately show ?thesis by simp
qed

lemma pop_world: "length ancestors \<ge> 2 \<Longrightarrow> snd (pop ancestors w) = w"
  by (cases "(ancestors, w)" rule: pop.cases) simp_all

lemma pop_stack_indep: "length ancestors \<ge> 2 \<Longrightarrow> fst (pop ancestors w) = fst (pop ancestors w')"
  by (cases "(ancestors, w)" rule: pop.cases) simp_all

lemma pop_allIds:
  assumes "length ancestors \<ge> 2" and "openBelow ancestors"
  shows "allIds (fst (pop ancestors w)) = allIds ancestors \<and> openBelow (fst (pop ancestors w))"
proof -
  from assms(1) obtain e p rest where anc: "ancestors = e # p # rest"
    by (cases ancestors; cases "tl ancestors") auto
  from assms(2) anc have p: "f_children p \<noteq> []" "item_children (last (f_children p)) = []"
    and rest: "list_all (\<lambda>f. f_children f \<noteq> [] \<and> item_children (last (f_children f)) = []) rest"
    by (simp_all add: openBelow_def)
  show ?thesis
    using rest by (simp add: anc allIds_def openBelow_def idsOf_onLast [OF p])
qed

lemma stackOf_nonempty: "stackOf st ancestors \<Longrightarrow> ancestors \<noteq> []"
  by (auto simp add: stackOf_def)

lemma dropWhile_endsBefore:
  "dropWhile (endsBefore block) (map Some st @ [None]) = map Some (stillOpen block st) @ [None]"
  by (induction st) (simp_all add: stillOpen_def endsBefore_def)

text \<open>The loop of getParent on a well-formed stack.\<close>

lemma getParentWhile_stack:
  assumes "stackOf st ancestors" and "openBelow ancestors"
  shows "\<exists>S. stackOf (stillOpen block st) S \<and> openBelow S \<and> allIds S = allIds ancestors
              \<and> (\<forall>w. getParentWhile block ancestors w = (S, w, None))"
  using assms
proof (induction "length ancestors" arbitrary: ancestors st)
  case 0
  then show ?case by (simp add: stackOf_def)
next
  case (Suc n)
  from Suc.hyps(2) obtain parent below where anc: "ancestors = parent # below"
    by (cases ancestors) auto
  show ?case
  proof (cases st)
    case Nil
    with Suc.prems(1) anc have none: "f_block parent = None" and "below = []"
      by (simp_all add: stackOf_def)
    then show ?thesis
      using Suc.prems anc Nil by (intro exI [of _ ancestors]) (simp add: stillOpen_def)
  next
    case (Cons s st')
    with Suc.prems(1) anc have fb: "f_block parent = Some s" and below: "stackOf st' below"
      by (simp_all add: stackOf_def)
    show ?thesis
    proof (cases "line (bend s) \<le> line (bstart block)")
      case False
      then show ?thesis
        using Suc.prems anc Cons fb by (intro exI [of _ ancestors]) (simp add: stillOpen_def)
    next
      case True
      from below have "below \<noteq> []" by (rule stackOf_nonempty)
      then have len: "length ancestors \<ge> 2" using anc by (cases below) simp_all
      let ?P = "fst (pop ancestors undefined)"
      have P_len: "n = length ?P" using Suc.hyps(2) by (simp add: pop_length)
      have P_stack: "stackOf st' ?P"
        using below anc by (simp add: stackOf_def pop_blocks)
      have P_ids: "allIds ?P = allIds ancestors" and P_open: "openBelow ?P"
        using pop_allIds [OF len Suc.prems(2)] by simp_all
      from Suc.hyps(1) [OF P_len P_stack P_open] obtain S where
        S: "stackOf (stillOpen block st') S" "openBelow S" "allIds S = allIds ?P"
           "\<forall>w. getParentWhile block ?P w = (S, w, None)" by blast
      have step: "getParentWhile block ancestors w = (S, w, None)" for w
      proof -
        have "fst (pop ancestors w) = ?P" by (rule pop_stack_indep [OF len])
        moreover have "snd (pop ancestors w) = w" by (rule pop_world [OF len])
        ultimately show ?thesis using S(4) True fb by (simp add: anc)
      qed
      have "stillOpen block st = stillOpen block st'"
        using True Cons by (simp add: stillOpen_def)
      with S P_ids step show ?thesis by (intro exI [of _ S]) simp
    qed
  qed
qed

lemma getParent_stack:
  assumes "stackOf st ancestors" and "openBelow ancestors"
  shows "\<exists>S. stackOf (stillOpen block st) S \<and> openBelow S \<and> allIds S = allIds ancestors
              \<and> (\<forall>w. getParent block ancestors w = (S, w, None))"
proof -
  from assms(1) obtain parent below where anc: "ancestors = parent # below"
    by (cases ancestors) (auto simp add: stackOf_def)
  show ?thesis
  proof (cases "f_block parent")
    case None
    with assms(1) anc have "st = []" by (cases st) (simp_all add: stackOf_def)
    with None assms anc show ?thesis
      by (intro exI [of _ ancestors]) (simp add: getParent_def stillOpen_def)
  next
    case (Some s)
    then have "getParent block ancestors w = getParentWhile block ancestors w" for w
      by (simp add: getParent_def anc del: getParentWhile.simps)
    with getParentWhile_stack [OF assms, of block] show ?thesis by simp
  qed
qed


lemma names_of_blocks:
  "map f_block fs = map Some st \<Longrightarrow>
     map (\<lambda>x. case f_block x of None \<Rightarrow> [] | Some b \<Rightarrow> bname b) fs = map bname st"
  by (induction fs arbitrary: st) auto

lemma fullName_stackOf:
  assumes "stackOf st S"
  shows "fullName trim S block = trim (joinSpace (map bname (rev st) @ [bname block]))"
proof -
  have "map f_block (butlast S) = map Some st"
    using assms by (simp add: stackOf_def map_butlast)
  then have "map (\<lambda>x. case f_block x of None \<Rightarrow> [] | Some b \<Rightarrow> bname b) (butlast S) = map bname st"
    by (rule names_of_blocks)
  then show ?thesis by (simp add: fullName_def rev_map [symmetric])
qed

lemma expectedIds_Nil [simp]: "expectedIds trim u i st [] = []"
  by (simp add: expectedIds_def)

lemma upt_shift: "[i..<Suc (i + n)] = i # [Suc i..<Suc (i + n)]"
  by (simp add: upt_conv_Cons del: upt_Suc)

lemma expectedIds_Cons:
  "expectedIds trim u i st (block # arr) =
     makeId u (trim (joinSpace (map bname (rev (stillOpen block st)) @ [bname block]))) i
       # expectedIds trim u (Suc i)
           (if btype block = Describe then block # stillOpen block st else stillOpen block st) arr"
  by (simp add: expectedIds_def upt_shift del: upt_Suc)

lemma discoverLoop_stack:
  assumes "stackOf st ancestors" and "openBelow ancestors"
  shows "\<exists>S ks E. (\<forall>w. discoverLoop trim u arr i t ancestors w = (S, w\<lparr>testItemIds := fold mapSet ks (testItemIds w)\<rparr>, E))
           \<and> (E = None \<longrightarrow> S \<noteq> [])
           \<and> ((\<forall>b \<in> set arr. validBlock b) \<longrightarrow>
                E = None \<and> (\<exists>st'. stackOf st' S) \<and> openBelow S
                \<and> ks = expectedIds trim u i st arr \<and> allIds S = allIds ancestors @ ks)"
  using assms
proof (induction arr arbitrary: i t ancestors st)
  case Nil
  show ?case
    using Nil.prems stackOf_nonempty [OF Nil.prems(1)]
    by (intro exI [of _ ancestors] exI [of _ "[]"] exI [of _ None]) auto
next
  case (Cons block arr)
  from getParent_stack [OF Cons.prems, of block] obtain S1 where
    S1: "stackOf (stillOpen block st) S1" "openBelow S1" "allIds S1 = allIds ancestors"
        "\<forall>w. getParent block ancestors w = (S1, w, None)" by blast
  from S1(1) obtain parent below where S1_eq: "S1 = parent # below"
    by (cases S1) (auto simp add: stackOf_def)
  let ?st1 = "stillOpen block st"
  let ?ident = "makeId u (fullName trim S1 block) i"
  let ?caseItem = "TestItem ?ident (bname block) u
      (Some (Range (int (line (bstart block)) - 1, column (bstart block))
                   (int (line (bend block)) - 1, column (bend block)))) [] []"
  let ?parent1 = "parent\<lparr>f_children := f_children parent @ [?caseItem]\<rparr>"
  let ?isEach = "lastProperty block = Some ''each''"
  have ident: "?ident = makeId u (trim (joinSpace (map bname (rev ?st1) @ [bname block]))) i"
    by (simp add: fullName_stackOf [OF S1(1)])
  have below_open: "list_all (\<lambda>f. f_children f \<noteq> [] \<and> item_children (last (f_children f)) = []) below"
    using S1(2) by (simp add: S1_eq openBelow_def)
  show ?case
  proof (cases "line (bstart block) = 0 \<or> line (bend block) = 0")
    case True
    have run: "discoverLoop trim u (block # arr) i t ancestors w
        = (S1, w\<lparr>testItemIds := fold mapSet [?ident] (testItemIds w)\<rparr>, Some IllegalArgument)" for w
      using S1(4) True by (simp add: S1_eq Let_def)
    have "\<not> validBlock block" using True by (auto simp add: validBlock_def)
    with run show ?thesis
      by (intro exI [of _ S1] exI [of _ "[?ident]"] exI [of _ "Some IllegalArgument"]) simp
  next
    case lines: False
    show ?thesis
    proof (cases "btype block")
      case Describe
      let ?data = "TestDescribe (bname block) ?isEach ?ident []"
      let ?parent2 = "?parent1\<lparr>f_dataChildren := f_dataChildren ?parent1 @ [?data]\<rparr>"
      let ?new = "\<lparr>f_block = Some block, f_children = [], f_dataChildren = []\<rparr> # ?parent2 # below"
      have st_new: "stackOf (block # ?st1) ?new"
        using S1(1) by (simp add: stackOf_def S1_eq)
      have open_new: "openBelow ?new"
        using below_open by (simp add: openBelow_def)
      have ids_new: "allIds ?new = allIds ancestors @ [?ident]"
        using S1(3) by (simp add: allIds_def S1_eq idsOf_single)
      from Cons.IH [OF st_new open_new, of "Suc i" t] obtain S ks E where
        IH: "\<forall>w. discoverLoop trim u arr (Suc i) t ?new w = (S, w\<lparr>testItemIds := fold mapSet ks (testItemIds w)\<rparr>, E)"
            "E = None \<longrightarrow> S \<noteq> []"
            "(\<forall>b \<in> set arr. validBlock b) \<longrightarrow>
               E = None \<and> (\<exists>st'. stackOf st' S) \<and> openBelow S
               \<and> ks = expectedIds trim u (Suc i) (block # ?st1) arr \<and> allIds S = allIds ?new @ ks"
        by blast
      have run: "discoverLoop trim u (block # arr) i t ancestors w
          = (S, w\<lparr>testItemIds := fold mapSet (?ident # ks) (testItemIds w)\<rparr>, E)" for w
        using S1(4) IH(1) Describe lines by (simp add: S1_eq Let_def)
      show ?thesis
        using run IH(2,3) Describe ids_new ident
        by (intro exI [of _ S] exI [of _ "?ident # ks"] exI [of _ E]) (simp add: expectedIds_Cons)
    next
      case It
      let ?testCase = "TestCase (bname block) ?isEach ?ident t"
      let ?parent2 = "?parent1\<lparr>f_dataChildren := f_dataChildren ?parent1 @ [?testCase]\<rparr>"
      let ?new = "?parent2 # below"
      have st_new: "stackOf ?st1 ?new"
        using S1(1) by (simp add: stackOf_def S1_eq)
      have open_new: "openBelow ?new"
        using below_open by (simp add: openBelow_def)
      have ids_new: "allIds ?new = allIds ancestors @ [?ident]"
        using S1(3) by (simp add: allIds_def S1_eq idsOf_single)
      from Cons.IH [OF st_new open_new, of "Suc i" "Suc t"] obtain S ks E where
        IH: "\<forall>w. discoverLoop trim u arr (Suc i) (Suc t) ?new w = (S, w\<lparr>testItemIds := fold mapSet ks (testItemIds w)\<rparr>, E)"
            "E = None \<longrightarrow> S \<noteq> []"
            "(\<forall>b \<in> set arr. validBlock b) \<longrightarrow>
               E = None \<and> (\<exists>st'. stackOf st' S) \<and> openBelow S
               \<and> ks = expectedIds trim u (Suc i) ?st1 arr \<and> allIds S = allIds ?new @ ks"
        by blast
      have run: "discoverLoop trim u (block # arr) i t ancestors w
          = (S, w\<lparr>testItemIds := fold mapSet (?ident # ks) (testItemIds w)\<rparr>, E)" for w
        using S1(4) IH(1) It lines by (simp add: S1_eq Let_def)
      show ?thesis
        using run IH(2,3) It ids_new ident
        by (intro exI [of _ S] exI [of _ "?ident # ks"] exI [of _ E]) (simp add: expectedIds_Cons)
    next
      case (OtherBlock x)
      have run: "discoverLoop trim u (block # arr) i t ancestors w
          = (?parent1 # below, w\<lparr>testItemIds := fold mapSet [?ident] (testItemIds w)\<rparr>, Some UnexpectedBlockType)" for w
        using S1(4) OtherBlock lines by (simp add: S1_eq Let_def)
      have "\<not> validBlock block" using OtherBlock by (simp add: validBlock_def)
      with run show ?thesis
        by (intro exI [of _ "?parent1 # below"] exI [of _ "[?ident]"] exI [of _ "Some UnexpectedBlockType"]) simp
    qed
  qed
qed

lemma popAll_stack:
  assumes "S \<noteq> []"
  shows "\<exists>cs dd. (\<forall>w. popAll S w = w\<lparr>fileItem := replaceChildren (fileItem w) cs, fileData := dd\<rparr>)
            \<and> (openBelow S \<longrightarrow> idsOf cs = allIds S)"
  using assms
proof (induction "length S" arbitrary: S)
  case 0
  then show ?case by simp
next
  case (Suc n)
  from Suc.prems obtain e rest where S: "S = e # rest" by (cases S) auto
  show ?case
  proof (cases rest)
    case Nil
    show ?thesis
      by (intro exI [of _ "f_children e"] exI [of _ "f_dataChildren e"])
        (simp add: S Nil allIds_def)
  next
    case (Cons p rest')
    then have len: "length S \<ge> 2" by (simp add: S)
    let ?P = "fst (pop S undefined)"
    have P_len: "n = length ?P" using Suc.hyps(2) by (simp add: pop_length)
    have P_ne: "?P \<noteq> []" using len P_len Suc.hyps(2) by auto
    from Suc.hyps(1) [OF P_len P_ne] obtain cs dd where
      IH: "\<forall>w. popAll ?P w = w\<lparr>fileItem := replaceChildren (fileItem w) cs, fileData := dd\<rparr>"
          "openBelow ?P \<longrightarrow> idsOf cs = allIds ?P" by blast
    have step: "popAll S w = popAll ?P w" for w
    proof -
      have "fst (pop S w) = ?P" by (rule pop_stack_indep [OF len])
      moreover have "snd (pop S w) = w" by (rule pop_world [OF len])
      ultimately show ?thesis by (simp add: S)
    qed
    have "openBelow S \<longrightarrow> idsOf cs = allIds S"
      using IH(2) pop_allIds [OF len, of undefined] by auto
    with IH(1) step show ?thesis by (intro exI [of _ cs] exI [of _ dd]) simp
  qed
qed



lemma item_children_replaceChildren [simp]: "item_children (replaceChildren c cs) = cs"
  by (simp add: replaceChildren_def)

lemma replaceChildren_twice [simp]: "replaceChildren (replaceChildren c cs) ds = replaceChildren c ds"
  by (simp add: replaceChildren_def)












lemma itemOf_replaceChildren [simp]: "itemOf s (replaceChildren c cs) = itemOf s c"
  by (simp add: itemOf_def replaceChildren_def)










lemma setTags_fields [simp]:
  "label (setTags ts x) = label x" "item_range (setTags ts x) = item_range x"
  "item_id (setTags ts x) = item_id x" "item_uri (setTags ts x) = item_uri x"
  "tags (setTags ts x) = ts"
  "item_children (setTags ts x) = map (setTags ts) (item_children x)"
  by (cases x; simp)+

lemma itemOf_setTags [simp]: "itemOf b (setTags ts x) = itemOf b x"
  by (simp add: itemOf_def)












lemma publish_fields:
  "item_id (publish docs cs i) = item_id i" "item_uri (publish docs cs i) = item_uri i"
  "tags (publish docs cs i) = newTags docs i"
  "item_children (publish docs cs i) = map (setTags (newTags docs i)) cs"
  by (simp_all add: publish_def replaceChildren_def)

lemma publish_idem: "publish docs cs (publish docs cs i) = publish docs cs i"
  by (simp add: publish_def replaceChildren_def newTags_def)

lemma descendants_setTags: "map item_id (descendants (setTags ts i)) = map item_id (descendants i)"
proof (induction i)
  case (TestItem i l u r t cs)
  have "concat (map (\<lambda>c. map item_id (descendants (setTags ts c))) cs)
      = concat (map (\<lambda>c. map item_id (descendants c)) cs)"
    using TestItem.IH by (induction cs) simp_all
  then show ?case by (simp add: map_concat comp_def)
qed

lemma idsOf_setTags: "idsOf (map (setTags ts) cs) = idsOf cs"
  by (induction cs) (simp_all add: idsOf_def descendants_setTags)

lemma mapSet_mem: "k \<in> set ks \<Longrightarrow> mapSet k ks = ks"
  by (simp add: mapSet_def)

lemma set_mapSet: "set (mapSet k ks) = insert k (set ks)"
  by (auto simp add: mapSet_def)

lemma set_fold_mapSet: "set (fold mapSet ks K) = set ks \<union> set K"
  by (induction ks arbitrary: K) (auto simp add: set_mapSet)

lemma fold_mapSet_absorb: "set ks \<subseteq> set K \<Longrightarrow> fold mapSet ks K = K"
  by (induction ks arbitrary: K) (simp_all add: mapSet_mem)

lemma fold_mapSet_idem: "fold mapSet ks (fold mapSet ks K) = fold mapSet ks K"
  by (rule fold_mapSet_absorb) (simp add: set_fold_mapSet)

lemma discover_normal_form:
  fixes trim parse textDocuments content fid u
  shows "\<exists>ks tree E.
     (\<forall>w. item_id (fileItem w) = fid \<and> item_uri (fileItem w) = u \<longrightarrow>
        discoverTestFromFileContent trim parse textDocuments content w =
          (case tree of
             None \<Rightarrow> (w\<lparr>testItemIds := fold mapSet ks (testItemIds w)\<rparr>, E)
           | Some (cs, dd) \<Rightarrow>
               (w\<lparr>testItemIds := fold mapSet ks (testItemIds w),
                   fileItem := publish textDocuments cs (fileItem w), fileData := dd\<rparr>, None)))
     \<and> (\<forall>ds is. parse fid content = Inr (ds, is)
            \<and> (\<forall>b \<in> set (ds @ is). validBlock b) \<longrightarrow>
          (\<exists>cs dd. tree = Some (cs, dd)
             \<and> idsOf cs = expectedIds trim u 0 [] (sort_key (\<lambda>b. line (bstart b)) (ds @ is))))
     \<and> (\<forall>e. parse fid content = Inl e \<longrightarrow> tree = None \<and> E = None)"
proof (cases "parse fid content")
  case (Inl e)
  show ?thesis
    by (intro exI [of _ "[fid]"] exI [of _ None] exI [of _ None])
      (simp add: discoverTestFromFileContent_def Inl)
next
  case (Inr blocks)
  obtain ds "is" where blocks: "blocks = (ds, is)" by (cases blocks)
  let ?arr = "sort_key (\<lambda>b. line (bstart b)) (ds @ is)"
  let ?root = "\<lparr>f_block = None, f_children = [], f_dataChildren = []\<rparr>"
  have root_stack: "stackOf [] [?root]" by (simp add: stackOf_def)
  have root_open: "openBelow [?root]" by (simp add: openBelow_def)
  from discoverLoop_stack [OF root_stack root_open, of trim u ?arr 0 0] obtain S ks E where
    loop: "\<forall>w. discoverLoop trim u ?arr 0 0 [?root] w = (S, w\<lparr>testItemIds := fold mapSet ks (testItemIds w)\<rparr>, E)"
    and nonempty: "E = None \<longrightarrow> S \<noteq> []"
    and valid: "(\<forall>b \<in> set ?arr. validBlock b) \<longrightarrow>
                E = None \<and> (\<exists>st'. stackOf st' S) \<and> openBelow S
                \<and> ks = expectedIds trim u 0 [] ?arr \<and> allIds S = allIds [?root] @ ks"
    by blast
  show ?thesis
  proof (cases E)
    case (Some e)
    have run: "discoverTestFromFileContent trim parse textDocuments content w
        = (w\<lparr>testItemIds := fold mapSet (fid # ks) (testItemIds w)\<rparr>, Some e)"
      if "item_id (fileItem w) = fid" "item_uri (fileItem w) = u" for w
      using that loop Some by (simp add: discoverTestFromFileContent_def Inr blocks Let_def)
    have "\<not> (\<forall>b \<in> set ?arr. validBlock b)"
      using valid Some by auto
    with run show ?thesis
      by (intro exI [of _ "fid # ks"] exI [of _ None] exI [of _ "Some e"])
        (auto simp add: Inr blocks)
  next
    case None
    have "S \<noteq> []" using nonempty None by simp
    from popAll_stack [OF this] obtain cs dd where
      pa: "\<forall>w. popAll S w = w\<lparr>fileItem := replaceChildren (fileItem w) cs, fileData := dd\<rparr>"
      and pa_ids: "openBelow S \<longrightarrow> idsOf cs = allIds S" by blast
    have run: "discoverTestFromFileContent trim parse textDocuments content w
        = (w\<lparr>testItemIds := fold mapSet (fid # ks) (testItemIds w),
              fileItem := publish textDocuments cs (fileItem w), fileData := dd\<rparr>, None)"
      if "item_id (fileItem w) = fid" "item_uri (fileItem w) = u" for w
      using that loop None pa
      by (simp add: discoverTestFromFileContent_def Inr blocks Let_def publish_def newTags_def
          replaceChildren_def)
    have ids: "idsOf cs = expectedIds trim u 0 [] ?arr" if "\<forall>b \<in> set (ds @ is). validBlock b"
    proof -
      from that have "\<forall>b \<in> set ?arr. validBlock b" by simp
      with valid pa_ids show ?thesis by (simp add: allIds_def)
    qed
    show ?thesis
      using run ids
      by (intro exI [of _ "fid # ks"] exI [of _ "Some (cs, dd)"] exI [of _ None])
        (auto simp add: Inr blocks)
  qed
qed


lemma idsBelow_publish: "idsBelow (publish docs cs i) = idsOf cs"
proof -
  have "idsBelow (publish docs cs i) = idsOf (map (setTags (newTags docs i)) cs)"
    unfolding idsBelow_def idsOf_def publish_fields ..
  then show ?thesis by (simp only: idsOf_setTags)
qed

lemma discover_ids:
  assumes "parse (item_id (fileItem w)) content = Inr (ds, is)"
    and "\<forall>b \<in> set (ds @ is). validBlock b"
  shows "snd (discoverTestFromFileContent trim parse textDocuments content w) = None
    \<and> idsBelow (fileItem (fst (discoverTestFromFileContent trim parse textDocuments content w)))
        = expectedIds trim (item_uri (fileItem w)) 0 [] (sort_key (\<lambda>b. line (bstart b)) (ds @ is))
    \<and> item_id (fileItem (fst (discoverTestFromFileContent trim parse textDocuments content w))) = item_id (fileItem w)
    \<and> item_uri (fileItem (fst (discoverTestFromFileContent trim parse textDocuments content w))) = item_uri (fileItem w)"
proof -
  from discover_normal_form [of "item_id (fileItem w)" "item_uri (fileItem w)" trim parse textDocuments content]
  obtain ks tree E where all: "(\<forall>w'. item_id (fileItem w') = item_id (fileItem w) \<and> item_uri (fileItem w') = item_uri (fileItem w) \<longrightarrow>
        discoverTestFromFileContent trim parse textDocuments content w' =
          (case tree of
             None \<Rightarrow> (w'\<lparr>testItemIds := fold mapSet ks (testItemIds w')\<rparr>, E)
           | Some (cs, dd) \<Rightarrow>
               (w'\<lparr>testItemIds := fold mapSet ks (testItemIds w'),
                   fileItem := publish textDocuments cs (fileItem w'), fileData := dd\<rparr>, None)))
     \<and> (\<forall>ds is. parse (item_id (fileItem w)) content = Inr (ds, is)
            \<and> (\<forall>b \<in> set (ds @ is). validBlock b) \<longrightarrow>
          (\<exists>cs dd. tree = Some (cs, dd)
             \<and> idsOf cs = expectedIds trim (item_uri (fileItem w)) 0 [] (sort_key (\<lambda>b. line (bstart b)) (ds @ is))))
     \<and> (\<forall>e. parse (item_id (fileItem w)) content = Inl e \<longrightarrow> tree = None \<and> E = None)"
    by (elim exE)
  note nf = all [THEN conjunct1] and ok = all [THEN conjunct2, THEN conjunct1]
  from ok assms obtain cs dd where tree: "tree = Some (cs, dd)"
    and ids: "idsOf cs = expectedIds trim (item_uri (fileItem w)) 0 [] (sort_key (\<lambda>b. line (bstart b)) (ds @ is))"
    by blast
  from nf tree have run: "discoverTestFromFileContent trim parse textDocuments content w =
      (w\<lparr>testItemIds := fold mapSet ks (testItemIds w),
         fileItem := publish textDocuments cs (fileItem w), fileData := dd\<rparr>, None)"
    by simp
  show ?thesis
    using ids by (simp add: run idsBelow_publish publish_fields)
qed

text \<open>
  C4. Discovering the same text of the same file a second time, with the same
  documents open, changes nothing: the world after the second call, and its
  outcome, are those of the first call. In particular every item has the same
  id and the children of the file and of every suite are in the same order.
\<close>

theorem discover_idempotent:
  "discoverTestFromFileContent trim parse textDocuments content
     (fst (discoverTestFromFileContent trim parse textDocuments content w))
   = discoverTestFromFileContent trim parse textDocuments content w"
proof -
  from discover_normal_form [of "item_id (fileItem w)" "item_uri (fileItem w)" trim parse textDocuments content]
  obtain ks tree E where all: "(\<forall>w'. item_id (fileItem w') = item_id (fileItem w) \<and> item_uri (fileItem w') = item_uri (fileItem w) \<longrightarrow>
        discoverTestFromFileContent trim parse textDocuments content w' =
          (case tree of
             None \<Rightarrow> (w'\<lparr>testItemIds := fold mapSet ks (testItemIds w')\<rparr>, E)
           | Some (cs, dd) \<Rightarrow>
               (w'\<lparr>testItemIds := fold mapSet ks (testItemIds w'),
                   fileItem := publish textDocuments cs (fileItem w'), fileData := dd\<rparr>, None)))
     \<and> (\<forall>ds is. parse (item_id (fileItem w)) content = Inr (ds, is)
            \<and> (\<forall>b \<in> set (ds @ is). validBlock b) \<longrightarrow>
          (\<exists>cs dd. tree = Some (cs, dd)
             \<and> idsOf cs = expectedIds trim (item_uri (fileItem w)) 0 [] (sort_key (\<lambda>b. line (bstart b)) (ds @ is))))
     \<and> (\<forall>e. parse (item_id (fileItem w)) content = Inl e \<longrightarrow> tree = None \<and> E = None)"
    by (elim exE)
  note nf = all [THEN conjunct1]
  show ?thesis
  proof (cases tree)
    case None
    let ?w1 = "w\<lparr>testItemIds := fold mapSet ks (testItemIds w)\<rparr>"
    from nf None have first: "discoverTestFromFileContent trim parse textDocuments content w = (?w1, E)"
      by simp
    from nf None have "discoverTestFromFileContent trim parse textDocuments content ?w1
        = (?w1\<lparr>testItemIds := fold mapSet ks (testItemIds ?w1)\<rparr>, E)"
      by simp
    then show ?thesis by (simp add: first fold_mapSet_idem)
  next
    case (Some pair)
    obtain cs dd where pair: "pair = (cs, dd)" by (cases pair)
    let ?w1 = "w\<lparr>testItemIds := fold mapSet ks (testItemIds w),
                 fileItem := publish textDocuments cs (fileItem w), fileData := dd\<rparr>"
    from nf Some pair have first: "discoverTestFromFileContent trim parse textDocuments content w = (?w1, None)"
      by simp
    have same: "item_id (fileItem ?w1) = item_id (fileItem w) \<and> item_uri (fileItem ?w1) = item_uri (fileItem w)"
      by (simp add: publish_fields)
    from nf [rule_format, OF same] Some pair
    have "discoverTestFromFileContent trim parse textDocuments content ?w1
        = (?w1\<lparr>testItemIds := fold mapSet ks (testItemIds ?w1),
               fileItem := publish textDocuments cs (fileItem ?w1), fileData := dd\<rparr>, None)"
      by simp
    then show ?thesis by (simp add: first fold_mapSet_idem publish_idem)
  qed
qed

theorem discover_idempotent_witness:
  "fst (discoverTestFromFileContent asciiTrim m_parse [''/m.test.ts''] ''v3'' m_world)
     = \<lparr>fileItem =
          TestItem ''file:///m.test.ts'' ''m.test.ts'' m_uri None [OpenTestTag]
            [TestItem ''file:///m.test.ts/math@0'' ''math'' m_uri (Some (0, 8, 3, 2)) [OpenTestTag]
               [TestItem ''file:///m.test.ts/math adds@1'' ''adds'' m_uri (Some (1, 4, 1, 30)) [OpenTestTag] [],
                TestItem ''file:///m.test.ts/math subtracts@2'' ''subtracts'' m_uri (Some (2, 4, 2, 30)) [OpenTestTag] []]],
        fileData =
          [TestDescribe ''math'' False ''file:///m.test.ts/math@0''
             [TestCase ''adds'' False ''file:///m.test.ts/math adds@1'' 0,
              TestCase ''subtracts'' False ''file:///m.test.ts/math subtracts@2'' 1]],
        testItemIds = [''file:///m.test.ts'', ''file:///m.test.ts/math@0'',
                       ''file:///m.test.ts/math adds@1'', ''file:///m.test.ts/math subtracts@2'']\<rparr>
   \<and> discoverTestFromFileContent asciiTrim m_parse [''/m.test.ts''] ''v3''
         (fst (discoverTestFromFileContent asciiTrim m_parse [''/m.test.ts''] ''v3'' m_world))
       = discoverTestFromFileContent asciiTrim m_parse [''/m.test.ts''] ''v3'' m_world"
proof -
  have first: "fst (discoverTestFromFileContent asciiTrim m_parse [''/m.test.ts''] ''v3'' m_world)
     = \<lparr>fileItem =
          TestItem ''file:///m.test.ts'' ''m.test.ts'' m_uri None [OpenTestTag]
            [TestItem ''file:///m.test.ts/math@0'' ''math'' m_uri (Some (0, 8, 3, 2)) [OpenTestTag]
               [TestItem ''file:///m.test.ts/math adds@1'' ''adds'' m_uri (Some (1, 4, 1, 30)) [OpenTestTag] [],
                TestItem ''file:///m.test.ts/math subtracts@2'' ''subtracts'' m_uri (Some (2, 4, 2, 30)) [OpenTestTag] []]],
        fileData =
          [TestDescribe ''math'' False ''file:///m.test.ts/math@0''
             [TestCase ''adds'' False ''file:///m.test.ts/math adds@1'' 0,
              TestCase ''subtracts'' False ''file:///m.test.ts/math subtracts@2'' 1]],
        testItemIds = [''file:///m.test.ts'', ''file:///m.test.ts/math@0'',
                       ''file:///m.test.ts/math adds@1'', ''file:///m.test.ts/math subtracts@2'']\<rparr>"
    by code_simp
  show ?thesis
    using discover_idempotent [of asciiTrim m_parse "[''/m.test.ts'']" "''v3''" m_world] first by simp
qed

lemma showNat_small:
  "showNat 0 = ''0''" "showNat (Suc 0) = ''1''" "showNat (Suc (Suc 0)) = ''2''"
  by code_simp+

lemma expectedIds_two:
  "expectedIds trim u 0 [] [A, B] =
     [uri_string u @ ''/'' @ trim (bname A) @ ''@0'',
      uri_string u @ ''/'' @
        trim (if btype A = Describe \<and> line (bstart B) < line (bend A)
              then bname A @ '' '' @ bname B else bname B) @ ''@1'']"
  by (simp add: expectedIds_def makeId_def showNat_small stillOpen_def del: showNat.simps)

lemma expectedIds_three:
  "expectedIds trim u 0 [] [C, A, B] =
     [uri_string u @ ''/'' @ trim (bname C) @ ''@0'',
      uri_string u @ ''/'' @
        trim ((if btype C = Describe \<and> line (bstart A) < line (bend C) then bname C @ '' '' else [])
              @ bname A) @ ''@1'',
      uri_string u @ ''/'' @
        trim ((if (btype C = Describe \<and> line (bstart A) < line (bend C))
                  \<and> ((btype A = Describe \<and> line (bstart B) < line (bend A))
                       \<or> line (bstart B) < line (bend C))
               then bname C @ '' '' else [])
              @ (if btype A = Describe \<and> line (bstart B) < line (bend A)
                 then bname A @ '' '' @ bname B else bname B)) @ ''@2'']"
  by (simp add: expectedIds_def makeId_def showNat_small stillOpen_def numeral_2_eq_2 upt_rec
      del: showNat.simps)


text \<open>
  C3, as amended. The id of a block is the file's URI, \<^verbatim>\<open>/\<close>, the full name of the
  block, \<^verbatim>\<open>@\<close> and the position of the block in the sorted list. The full name is
  the name of the block after the names of the suites that are open when the
  block is met, outermost first, separated by one space each, and trimmed.

  A file whose sorted blocks are \<open>[A, B]\<close> gives, below the file's item and in
  this order, an id numbered 0 with the name of \<open>A\<close> and an id numbered 1 with
  the name of \<open>B\<close>, after the name of \<open>A\<close> when \<open>A\<close> is a suite that ends below
  the line where \<open>B\<close> starts. When the file is parsed again and its sorted
  blocks are \<open>[C, A', B']\<close>, where \<open>A'\<close> and \<open>B'\<close> are \<open>A\<close> and \<open>B\<close> with the same
  names (their lines may have moved, \<open>B'\<close> in \<open>A'\<close> as \<open>B\<close> was in \<open>A\<close>), the ids
  are numbered 0, 1 and 2: the number follows the position in the sorted list.
  The full names of \<open>A'\<close> and \<open>B'\<close> are those of \<open>A\<close> and \<open>B\<close> when \<open>C\<close> is not
  open at \<open>A'\<close> (it is a case, or a suite that ends on or above the line where
  \<open>A'\<close> starts): the ids are then the former ones with 1 and 2 for 0 and 1.
  When \<open>C\<close> is a suite open at \<open>A'\<close>, its name comes first in the full name of
  \<open>A'\<close>, and in that of \<open>B'\<close> when \<open>C\<close> is open at \<open>B'\<close> as well.
\<close>

theorem ids_follow_position:
  assumes "parse (item_id (fileItem w)) content1 = Inr (ds1, is1)"
    and "sort_key (\<lambda>b. line (bstart b)) (ds1 @ is1) = [A, B]"
    and "parse (item_id (fileItem w)) content2 = Inr (ds2, is2)"
    and "sort_key (\<lambda>b. line (bstart b)) (ds2 @ is2) = [C, A', B']"
    and "\<forall>b \<in> set [A, B, C, A', B']. validBlock b"
    and "bname A' = bname A \<and> btype A' = btype A \<and> bname B' = bname B"
    and "(line (bstart B') < line (bend A')) = (line (bstart B) < line (bend A))"
  shows "let u = uri_string (item_uri (fileItem w));
             inA = (btype A = Describe \<and> line (bstart B) < line (bend A));
             encA = (btype C = Describe \<and> line (bstart A') < line (bend C));
             encB = (encA \<and> (inA \<or> line (bstart B') < line (bend C)));
             nameA = bname A;
             nameB = (if inA then bname A @ '' '' @ bname B else bname B);
             first = fst (discoverTestFromFileContent trim parse textDocuments content1 w);
             second = fst (discoverTestFromFileContent trim parse textDocuments content2 first)
         in idsBelow (fileItem first)
              = [u @ ''/'' @ trim nameA @ ''@0'', u @ ''/'' @ trim nameB @ ''@1'']
          \<and> idsBelow (fileItem second)
              = [u @ ''/'' @ trim (bname C) @ ''@0'',
                 u @ ''/'' @ trim ((if encA then bname C @ '' '' else []) @ nameA) @ ''@1'',
                 u @ ''/'' @ trim ((if encB then bname C @ '' '' else []) @ nameB) @ ''@2'']
          \<and> (\<not> encA \<longrightarrow>
                idsBelow (fileItem second)
                  = [u @ ''/'' @ trim (bname C) @ ''@0'', u @ ''/'' @ trim nameA @ ''@1'',
                     u @ ''/'' @ trim nameB @ ''@2''])"
proof -
  let ?D1 = "discoverTestFromFileContent trim parse textDocuments content1 w"
  have set1: "set (ds1 @ is1) = set [A, B]"
    using assms(2) by (metis set_sort)
  have set2: "set (ds2 @ is2) = set [C, A', B']"
    using assms(4) by (metis set_sort)
  have v1: "\<forall>b \<in> set (ds1 @ is1). validBlock b"
    using assms(5) unfolding set1 by simp
  have v2: "\<forall>b \<in> set (ds2 @ is2). validBlock b"
    using assms(5) unfolding set2 by simp
  note first = discover_ids [of parse w content1 ds1 is1 trim textDocuments, OF assms(1) v1]
  have p2: "parse (item_id (fileItem (fst ?D1))) content2 = Inr (ds2, is2)"
    using first assms(3) by simp
  note second = discover_ids [of parse "fst ?D1" content2 ds2 is2 trim textDocuments, OF p2 v2]
  have a: "idsBelow (fileItem (fst ?D1)) = expectedIds trim (item_uri (fileItem w)) 0 [] [A, B]"
    using first by (simp add: assms(2))
  have b: "idsBelow (fileItem (fst (discoverTestFromFileContent trim parse textDocuments content2 (fst ?D1))))
      = expectedIds trim (item_uri (fileItem w)) 0 [] [C, A', B']"
    using second first by (simp add: assms(4))
  show ?thesis
    unfolding Let_def a b expectedIds_two expectedIds_three
    using assms(6,7) by simp
qed


theorem ids_follow_position_witness:
  "idsBelow (fileItem (fst (discoverTestFromFileContent asciiTrim n_parse [] ''w1'' m_world)))
     = [''file:///m.test.ts/math@0'', ''file:///m.test.ts/math adds@1'']
   \<and> idsBelow (fileItem (fst (discoverTestFromFileContent asciiTrim n_parse [] ''w2''
         (fst (discoverTestFromFileContent asciiTrim n_parse [] ''w1'' m_world)))))
     = [''file:///m.test.ts/zero@0'', ''file:///m.test.ts/math@1'', ''file:///m.test.ts/math adds@2'']"
proof -
  let ?A = "blk Describe ''math'' 1 8 3 2" and ?B = "blk It ''adds'' 2 4 2 30"
  let ?C = "blk It ''zero'' 1 0 1 20" and ?A' = "blk Describe ''math'' 2 8 4 2"
  let ?B' = "blk It ''adds'' 3 4 3 30"
  have p1: "n_parse (item_id (fileItem m_world)) ''w1'' = Inr ([?A], [?B])"
    by (simp add: n_parse_def)
  have s1: "sort_key (\<lambda>b. line (bstart b)) ([?A] @ [?B]) = [?A, ?B]"
    by (simp add: blk_def)
  have p2: "n_parse (item_id (fileItem m_world)) ''w2'' = Inr ([?A'], [?C, ?B'])"
    by (simp add: n_parse_def)
  have s2: "sort_key (\<lambda>b. line (bstart b)) ([?A'] @ [?C, ?B']) = [?C, ?A', ?B']"
    by (simp add: blk_def)
  have ty: "\<forall>b \<in> set [?A, ?B, ?C, ?A', ?B']. validBlock b"
    by (simp add: blk_def validBlock_def)
  have nm: "bname ?A' = bname ?A \<and> btype ?A' = btype ?A \<and> bname ?B' = bname ?B"
    by (simp add: blk_def)
  have ln: "(line (bstart ?B') < line (bend ?A')) = (line (bstart ?B) < line (bend ?A))"
    by (simp add: blk_def)
  have u: "uri_string (item_uri (fileItem m_world)) = ''file:///m.test.ts''"
    by (simp add: m_world_def m_uri_def)
  have t: "asciiTrim ''math'' = ''math''" "asciiTrim ''zero'' = ''zero''"
    "asciiTrim ''math adds'' = ''math adds''"
    by (simp_all add: asciiTrim_def isSpace_def)
  note inst = ids_follow_position [where trim = asciiTrim and parse = n_parse and w = m_world
      and textDocuments = "[]", OF p1 s1 p2 s2 ty nm ln]
  show ?thesis
    using inst unfolding u Let_def by (simp add: blk_def t)
qed

text \<open>
  The claim as it was stated fails when the block written before \<open>A\<close> is a suite
  around \<open>A\<close> and \<open>B\<close>: the sorted list goes from \<open>[adds, subtracts]\<close> to
  \<open>[math, adds, subtracts]\<close>, no name has changed, and the ids of the two cases
  are not \<^verbatim>\<open>adds@1\<close> and \<^verbatim>\<open>subtracts@2\<close>.
\<close>

theorem ids_enclosing_suite_counterexample:
  "m_parse ''file:///m.test.ts'' ''v1''
     = Inr ([], [blk It ''adds'' 1 2 1 30, blk It ''subtracts'' 2 2 2 30])
   \<and> m_parse ''file:///m.test.ts'' ''v3''
     = Inr ([blk Describe ''math'' 1 8 4 2], [blk It ''adds'' 2 4 2 30, blk It ''subtracts'' 3 4 3 30])
   \<and> idsBelow (fileItem (fst (discoverTestFromFileContent asciiTrim m_parse [] ''v1'' m_world)))
     = [''file:///m.test.ts/adds@0'', ''file:///m.test.ts/subtracts@1'']
   \<and> idsBelow (fileItem (fst (discoverTestFromFileContent asciiTrim m_parse [] ''v3''
         (fst (discoverTestFromFileContent asciiTrim m_parse [] ''v1'' m_world)))))
     = [''file:///m.test.ts/math@0'', ''file:///m.test.ts/math adds@1'',
        ''file:///m.test.ts/math subtracts@2'']"
proof (intro conjI)
  show "m_parse ''file:///m.test.ts'' ''v1''
     = Inr ([], [blk It ''adds'' 1 2 1 30, blk It ''subtracts'' 2 2 2 30])"
    by (simp add: m_parse_def)
  show "m_parse ''file:///m.test.ts'' ''v3''
     = Inr ([blk Describe ''math'' 1 8 4 2], [blk It ''adds'' 2 4 2 30, blk It ''subtracts'' 3 4 3 30])"
    by (simp add: m_parse_def)
  show "idsBelow (fileItem (fst (discoverTestFromFileContent asciiTrim m_parse [] ''v1'' m_world)))
     = [''file:///m.test.ts/adds@0'', ''file:///m.test.ts/subtracts@1'']"
    by code_simp
  show "idsBelow (fileItem (fst (discoverTestFromFileContent asciiTrim m_parse [] ''v3''
         (fst (discoverTestFromFileContent asciiTrim m_parse [] ''v1'' m_world)))))
     = [''file:///m.test.ts/math@0'', ''file:///m.test.ts/math adds@1'',
        ''file:///m.test.ts/math subtracts@2'']"
    by code_simp
qed

text \<open>
  C5. When the parser fails on the text of a file, the function returns
  normally and leaves the file's item and the children of its \<^verbatim>\<open>TestFile\<close> as
  they were; the only effect is the registration of the file's id in the
  controller's id map, made before the parser is called.
\<close>

theorem parse_error_keeps_tree:
  assumes "parse (item_id (fileItem w)) content = Inl e"
  shows "discoverTestFromFileContent trim parse textDocuments content w =
           (w\<lparr>testItemIds := mapSet (item_id (fileItem w)) (testItemIds w)\<rparr>, None)
         \<and> fileItem (fst (discoverTestFromFileContent trim parse textDocuments content w)) = fileItem w
         \<and> fileData (fst (discoverTestFromFileContent trim parse textDocuments content w)) = fileData w"
  using assms by (simp add: discoverTestFromFileContent_def Let_def)

theorem parse_error_keeps_tree_witness:
  "fileData (fst (discoverTestFromFileContent asciiTrim m_parse [] ''v1'' m_world))
     = [TestCase ''adds'' False ''file:///m.test.ts/adds@0'' 0,
        TestCase ''subtracts'' False ''file:///m.test.ts/subtracts@1'' 1]
   \<and> m_parse (item_id (fileItem (fst (discoverTestFromFileContent asciiTrim m_parse [] ''v1'' m_world)))) ''it(''
     = Inl ParseError
   \<and> discoverTestFromFileContent asciiTrim m_parse [] ''it(''
       (fst (discoverTestFromFileContent asciiTrim m_parse [] ''v1'' m_world))
     = (fst (discoverTestFromFileContent asciiTrim m_parse [] ''v1'' m_world), None)"
proof -
  let ?w = "fst (discoverTestFromFileContent asciiTrim m_parse [] ''v1'' m_world)"
  have tree: "fileData ?w = [TestCase ''adds'' False ''file:///m.test.ts/adds@0'' 0,
        TestCase ''subtracts'' False ''file:///m.test.ts/subtracts@1'' 1]"
    by code_simp
  have ids: "mapSet (item_id (fileItem ?w)) (testItemIds ?w) = testItemIds ?w"
    by code_simp
  have err: "m_parse (item_id (fileItem ?w)) ''it('' = Inl ParseError"
    by (simp add: m_parse_def)
  show ?thesis
    using parse_error_keeps_tree [where trim = asciiTrim and parse = m_parse and w = "?w"
        and textDocuments = "[]",
        OF err] tree err ids by simp
qed

end
